theory Spec2Isabelle
  imports Complex_Main
begin

section \<open>Strings and the regular expressions of the condition evaluator\<close>

text \<open>
  A Python \<open>str\<close> is modelled as a \<open>string\<close> whose characters are the code points
  below 256. Within that range \<open>\d\<close> matches the ten ASCII digits and \<open>\s\<close> matches
  the ASCII white space, the four separators \<open>0x1c\<close> to \<open>0x1f\<close>, \<open>0x85\<close> and \<open>0xa0\<close>.
\<close>

definition is_digit :: "char \<Rightarrow> bool" where
  "is_digit c = (c \<in> set ''0123456789'')"

definition is_space :: "char \<Rightarrow> bool" where
  "is_space c = (of_char c \<in> {9, 10, 11, 12, 13, 28, 29, 30, 31, 32, 133, (160::nat)})"

definition is_cmp_char :: "char \<Rightarrow> bool" where
  "is_cmp_char c = (c \<in> set ''><=!'')"

definition is_paren_colon :: "char \<Rightarrow> bool" where
  "is_paren_colon c = (c \<in> set ''():'')"

text \<open>
  A compiled pattern is modelled by what it does at the start of the remaining text: the
  length of the match there, or \<open>None\<close>. None of the patterns of the source matches the
  empty string.
\<close>

type_synonym matcher = "string \<Rightarrow> nat option"

text \<open>\<open>\d+\.?\d*\<close>: all the digits, a dot if one follows, all the digits after it.\<close>

definition match_number :: matcher where
  "match_number s =
     (let ds = takeWhile is_digit s in
      if ds = [] then None
      else
        let r1 = drop (length ds) s;
            dot = (case r1 of [] \<Rightarrow> 0 | c # _ \<Rightarrow> if c = CHR ''.'' then 1 else (0::nat));
            r2 = drop dot r1
        in Some (length ds + dot + length (takeWhile is_digit r2)))"

text \<open>An alternation of literals such as \<open>price|time\<close>: the first alternative that is a
  prefix of the text.\<close>

definition match_alt :: "string list \<Rightarrow> matcher" where
  "match_alt lits s =
     (case filter (\<lambda>l. take (length l) s = l) lits of
        [] \<Rightarrow> None
      | l # _ \<Rightarrow> Some (length l))"

text \<open>A repeated character class such as \<open>[><=!]+\<close> or \<open>\s+\<close>.\<close>

definition match_class_plus :: "(char \<Rightarrow> bool) \<Rightarrow> matcher" where
  "match_class_plus P s =
     (let n = length (takeWhile P s) in if n = 0 then None else Some n)"

text \<open>A single character of a class, \<open>[():]\<close>.\<close>

definition match_class :: "(char \<Rightarrow> bool) \<Rightarrow> matcher" where
  "match_class P s = (case s of [] \<Rightarrow> None | c # _ \<Rightarrow> if P c then Some 1 else None)"

text \<open>
  \<open>(\d{1,2}:\d{2})\<close>: two digits, a colon and two digits; failing that, one digit, a
  colon and two digits.
\<close>

definition match_hm :: "nat \<Rightarrow> string \<Rightarrow> bool" where
  "match_hm k s =
     (k + 3 \<le> length s \<and> list_all is_digit (take k s) \<and> s ! k = CHR '':'' \<and>
      is_digit (s ! (k + 1)) \<and> is_digit (s ! (k + 2)))"

definition match_time :: matcher where
  "match_time s = (if match_hm 2 s then Some 5 else if match_hm 1 s then Some 4 else None)"

text \<open>
  \<open>re.sub(pattern, repl, text)\<close> scans the text from the left. Where the pattern matches,
  the match is replaced by \<open>repl\<close> applied to it and the scan resumes after the match;
  elsewhere the character is kept. \<open>str.replace\<close> is the same scan with a literal.
\<close>

function re_sub :: "matcher \<Rightarrow> (string \<Rightarrow> string) \<Rightarrow> string \<Rightarrow> string" where
  "re_sub m repl [] = []"
| "re_sub m repl (c # cs) =
     (case m (c # cs) of
        None \<Rightarrow> c # re_sub m repl cs
      | Some n \<Rightarrow>
          if n = 0 then c # re_sub m repl cs
          else repl (take n (c # cs)) @ re_sub m repl (drop n (c # cs)))"
  by pat_completeness auto
termination
  by (relation "measure (\<lambda>(m, repl, s). length s)") auto

definition str_replace :: "string \<Rightarrow> string \<Rightarrow> string \<Rightarrow> string" where
  "str_replace old new s = re_sub (match_alt [old]) (\<lambda>_. new) s"

subsection \<open>\<open>int\<close> and \<open>str\<close> on decimal numerals\<close>

definition digit_val :: "char \<Rightarrow> nat" where
  "digit_val c = of_char c - of_char CHR ''0''"

definition py_int :: "string \<Rightarrow> nat" where
  "py_int ds = foldl (\<lambda>a c. 10 * a + digit_val c) 0 ds"

definition digit_char :: "nat \<Rightarrow> char" where
  "digit_char d = ''0123456789'' ! d"

fun py_str :: "nat \<Rightarrow> string" where
  "py_str n = (if n < 10 then [digit_char n] else py_str (n div 10) @ [digit_char (n mod 10)])"

declare py_str.simps [simp del]

subsection \<open>\<open>ConditionEvaluator._normalize_time\<close>\<close>

text \<open>\<open>repl\<close>: split the match at the colon, read both parts as integers, print
  \<open>h*60 + m\<close>.\<close>

definition time_repl :: "string \<Rightarrow> string" where
  "time_repl g =
     (let h = py_int (takeWhile (\<lambda>c. c \<noteq> CHR '':'') g);
          m = py_int (drop 1 (dropWhile (\<lambda>c. c \<noteq> CHR '':'') g))
      in py_str (h * 60 + m))"

definition normalize_time :: "string \<Rightarrow> string" where
  "normalize_time time_str = re_sub match_time time_repl time_str"

subsection \<open>\<open>ConditionEvaluator._is_safe_expression\<close>\<close>

definition del :: "string \<Rightarrow> string" where
  "del g = []"

definition is_safe_expression :: "string \<Rightarrow> bool" where
  "is_safe_expression expression =
     (let cleaned = expression;
          cleaned = re_sub match_number del cleaned;
          cleaned = re_sub (match_alt [''price'', ''time'']) del cleaned;
          cleaned = re_sub (match_class_plus is_cmp_char) del cleaned;
          cleaned = re_sub (match_class_plus is_space) del cleaned;
          cleaned = re_sub (match_alt [''and'', ''or'']) del cleaned;
          cleaned = re_sub (match_class is_paren_colon) del cleaned
      in if cleaned \<noteq> [] then False else True)"

subsection \<open>\<open>ConditionEvaluator._safe_eval\<close> and \<open>ConditionEvaluator.evaluate\<close>\<close>

text \<open>
  The values an expression can have, and the exceptions of class \<open>Exception\<close> that the
  evaluator raises or lets through. Python's built-in \<open>eval\<close> is not code of this
  repository: it is a parameter of the model, any function from the expression and the two
  namespaces to a value or an exception.
\<close>

datatype py_value =
    PyBool bool
  | PyInt int
  | PyFloat real
  | PyBuiltin string
  | PyDict "(string \<times> py_value) list"

datatype py_exception = ValueError string | KeyError string | EvalError string

type_synonym namespace = "(string \<times> py_value) list"

type_synonym py_eval = "string \<Rightarrow> namespace \<Rightarrow> namespace \<Rightarrow> py_exception + py_value"

text \<open>\<open>bool(result)\<close>.\<close>

fun py_bool :: "py_value \<Rightarrow> bool" where
  "py_bool (PyBool b) = b"
| "py_bool (PyInt i) = (i \<noteq> 0)"
| "py_bool (PyFloat x) = (x \<noteq> 0)"
| "py_bool (PyBuiltin f) = True"
| "py_bool (PyDict d) = (d \<noteq> [])"

record datetime =
  hour :: nat
  minute :: nat
  second :: nat

definition safe_dict :: namespace where
  "safe_dict =
     [(''__builtins__'', PyDict []), (''abs'', PyBuiltin ''abs''),
      (''max'', PyBuiltin ''max''), (''min'', PyBuiltin ''min'')]"

definition safe_eval :: "py_eval \<Rightarrow> string \<Rightarrow> namespace \<Rightarrow> py_exception + py_value" where
  "safe_eval ev expression variables =
     (let expression = str_replace '' AND '' '' and '' expression;
          expression = str_replace '' OR '' '' or '' expression;
          expression = normalize_time expression;
          eval_dict = safe_dict @ variables
      in if \<not> is_safe_expression expression
         then Inl (ValueError (''Unsafe expression: '' @ expression))
         else (case ev expression [(''__builtins__'', PyDict [])] eval_dict of
                 Inr result \<Rightarrow> Inr result
               | Inl e \<Rightarrow> Inl e))"

text \<open>
  \<open>evaluate\<close>: the body of the \<open>try\<close>, and the handler that turns every exception into
  \<open>False\<close>. \<open>now\<close> is the value of \<open>datetime.now()\<close>; the readings of the clock
  within one step of a task are taken to be the same.
\<close>

definition evaluate_body :: "py_eval \<Rightarrow> datetime \<Rightarrow> string \<Rightarrow> real \<Rightarrow> py_exception + bool" where
  "evaluate_body ev now condition current_price =
     (let variables =
            [(''price'', PyFloat current_price),
             (''time'', PyInt (int (hour now * 60 + minute now)))]
      in case safe_eval ev condition variables of
           Inl e \<Rightarrow> Inl e
         | Inr result \<Rightarrow> Inr (py_bool result))"

definition evaluate :: "py_eval \<Rightarrow> datetime \<Rightarrow> string \<Rightarrow> real \<Rightarrow> bool" where
  "evaluate ev now condition current_price =
     (case evaluate_body ev now condition current_price of
        Inr b \<Rightarrow> b
      | Inl e \<Rightarrow> False)"

text \<open>
  The characters that some allowed token contains: digits and the decimal point of a
  number, the letters of \<open>price\<close>, \<open>time\<close>, \<open>and\<close>, \<open>or\<close>, \<open>AND\<close> and \<open>OR\<close>, the
  comparison characters, white space, parentheses and the colon.
\<close>

definition allowed_char :: "char \<Rightarrow> bool" where
  "allowed_char c =
     (is_digit c \<or> c = CHR ''.'' \<or> c \<in> set ''pricetimeandor'' \<or> c \<in> set ''ANDOR'' \<or>
      is_cmp_char c \<or> is_space c \<or> is_paren_colon c)"

subsection \<open>How Python evaluates the comparisons and connectives\<close>

text \<open>
  What \<open>eval\<close> does with an expression once it is parsed, for the trees of constants,
  names, comparisons, \<open>and\<close> and \<open>or\<close>: a name is looked up when it is evaluated,
  in the local namespace and then in the global one, and an unbound name raises
  \<open>NameError\<close>; \<open>or\<close> returns its left operand when that is true, without evaluating
  the right one, and \<open>and\<close> returns it when it is false. \<open>eval_parsed src tree\<close> is an
  \<open>eval\<close> that knows the tree of the one source text \<open>src\<close>.
\<close>

datatype cmp_op = Gt | Lt | GtE | LtE | Eq | NotEq

datatype py_expr =
    Constant py_value
  | Name string
  | Compare py_expr cmp_op py_expr
  | BoolOr py_expr py_expr
  | BoolAnd py_expr py_expr

fun number_of :: "py_value \<Rightarrow> real option" where
  "number_of (PyBool b) = Some (if b then 1 else 0)"
| "number_of (PyInt i) = Some (of_int i)"
| "number_of (PyFloat x) = Some x"
| "number_of (PyBuiltin f) = None"
| "number_of (PyDict d) = None"

fun compare_op :: "cmp_op \<Rightarrow> real \<Rightarrow> real \<Rightarrow> bool" where
  "compare_op Gt x y = (x > y)"
| "compare_op Lt x y = (x < y)"
| "compare_op GtE x y = (x \<ge> y)"
| "compare_op LtE x y = (x \<le> y)"
| "compare_op Eq x y = (x = y)"
| "compare_op NotEq x y = (x \<noteq> y)"

fun eval_expr :: "namespace \<Rightarrow> namespace \<Rightarrow> py_expr \<Rightarrow> py_exception + py_value" where
  "eval_expr g l (Constant v) = Inr v"
| "eval_expr g l (Name x) =
     (case map_of l x of
        Some v \<Rightarrow> Inr v
      | None \<Rightarrow> (case map_of g x of Some v \<Rightarrow> Inr v | None \<Rightarrow> Inl (EvalError (''NameError: '' @ x))))"
| "eval_expr g l (Compare a op b) =
     (case eval_expr g l a of
        Inl e \<Rightarrow> Inl e
      | Inr va \<Rightarrow>
          (case eval_expr g l b of
             Inl e \<Rightarrow> Inl e
           | Inr vb \<Rightarrow>
               (case (number_of va, number_of vb) of
                  (Some x, Some y) \<Rightarrow> Inr (PyBool (compare_op op x y))
                | _ \<Rightarrow> Inl (EvalError ''TypeError''))))"
| "eval_expr g l (BoolOr a b) =
     (case eval_expr g l a of
        Inl e \<Rightarrow> Inl e
      | Inr va \<Rightarrow> if py_bool va then Inr va else eval_expr g l b)"
| "eval_expr g l (BoolAnd a b) =
     (case eval_expr g l a of
        Inl e \<Rightarrow> Inl e
      | Inr va \<Rightarrow> if py_bool va then eval_expr g l b else Inr va)"

definition eval_parsed :: "string \<Rightarrow> py_expr \<Rightarrow> py_eval" where
  "eval_parsed src tree expression g l =
     (if expression = src then eval_expr g l tree else Inl (EvalError ''SyntaxError''))"

text \<open>The expression that reaches the safety check: \<open>AND\<close> and \<open>OR\<close> between
  spaces turned into Python's connectives, then the time literals normalised.\<close>

definition normalized_expression :: "string \<Rightarrow> string" where
  "normalized_expression condition =
     normalize_time (str_replace '' OR '' '' or '' (str_replace '' AND '' '' and '' condition))"

text \<open>A time literal: one or two hour digits \<open>hs\<close>, and two minute digits \<open>ms\<close>.\<close>

definition hhmm_literal :: "string \<Rightarrow> string \<Rightarrow> bool" where
  "hhmm_literal hs ms =
     ((length hs = 1 \<or> length hs = 2) \<and> length ms = 2 \<and>
      list_all is_digit hs \<and> list_all is_digit ms)"

section \<open>The data model\<close>

text \<open>
  Prices, risk bounds and profits are Python floats; they are modelled as real numbers, so
  arithmetic is exact. Quantities are integers.
\<close>

datatype StrategyState = CREATED | OPEN | CLOSED | FORCE_CLOSED | FAILED

datatype ExitReason = STOP_LOSS | TARGET_HIT | EXIT_CONDITION | TIME_EXIT | MARKET_CLOSE | ERROR

record MarketTick =
  tick_instrument :: string
  tick_price :: real
  tick_timestamp :: datetime

record Order =
  order_strategy_id :: string
  order_instrument :: string
  side :: string
  order_quantity :: int
  order_price :: real
  order_timestamp :: datetime

record Strategy =
  strategy_id :: string
  instrument :: string
  entry_condition :: string
  exit_condition :: string
  quantity :: int
  max_loss :: real
  max_profit :: real
  state :: StrategyState
  entry_price :: "real option"
  exit_price :: "real option"
  entry_time :: "datetime option"
  exit_time :: "datetime option"
  exit_reason :: "ExitReason option"
  pnl :: real

text \<open>The constructor of the dataclass, with the defaults of the runtime fields.\<close>

definition new_strategy ::
  "string \<Rightarrow> string \<Rightarrow> string \<Rightarrow> string \<Rightarrow> int \<Rightarrow> real \<Rightarrow> real \<Rightarrow> Strategy" where
  "new_strategy sid ins entry_c exit_c qty ml mp =
     \<lparr>strategy_id = sid, instrument = ins, entry_condition = entry_c, exit_condition = exit_c,
      quantity = qty, max_loss = ml, max_profit = mp, state = CREATED, entry_price = None,
      exit_price = None, entry_time = None, exit_time = None, exit_reason = None, pnl = 0\<rparr>"

definition is_open :: "Strategy \<Rightarrow> bool" where
  "is_open s = (state s = OPEN)"

definition is_closed :: "Strategy \<Rightarrow> bool" where
  "is_closed s = (state s \<in> set [CLOSED, FORCE_CLOSED])"

definition calculate_pnl :: "Strategy \<Rightarrow> real \<Rightarrow> real" where
  "calculate_pnl s current_price =
     (case entry_price s of
        None \<Rightarrow> 0
      | Some e \<Rightarrow> (current_price - e) * of_int (quantity s))"

definition enter :: "Strategy \<Rightarrow> real \<Rightarrow> datetime \<Rightarrow> Strategy" where
  "enter s price now = s\<lparr>state := OPEN, entry_price := Some price, entry_time := Some now\<rparr>"

definition exit :: "Strategy \<Rightarrow> real \<Rightarrow> ExitReason \<Rightarrow> datetime \<Rightarrow> Strategy" where
  "exit s price reason now =
     (let s = s\<lparr>exit_price := Some price, exit_time := Some now, exit_reason := Some reason\<rparr>;
          s = s\<lparr>pnl := calculate_pnl s price\<rparr>
      in if reason = MARKET_CLOSE then s\<lparr>state := FORCE_CLOSED\<rparr> else s\<lparr>state := CLOSED\<rparr>)"

definition mark_failed :: "Strategy \<Rightarrow> Strategy" where
  "mark_failed s = s\<lparr>state := FAILED\<rparr>"

section \<open>The market data simulator\<close>

text \<open>
  A subscriber queue is an object of its own, shared by the simulator and one strategy task:
  queues live in a store, and the subscriber registry holds references. The registry is a
  dictionary from instruments to sets of queues; it is modelled as an association list in
  insertion order, with distinct keys. A queue holds ticks and the stop signal \<open>None\<close>.
\<close>

type_synonym queue = "MarketTick option list"

record MarketDataSimulator =
  is_running :: bool
  subscribers :: "(string \<times> nat list) list"
  current_prices :: "string \<rightharpoonup> real"
  queue_store :: "nat \<Rightarrow> queue"

definition maxsize :: nat where
  "maxsize = 100"

definition get_current_price :: "MarketDataSimulator \<Rightarrow> string \<Rightarrow> real" where
  "get_current_price sim ins = (case current_prices sim ins of None \<Rightarrow> 0 | Some p \<Rightarrow> p)"

text \<open>
  \<open>asyncio.wait_for(queue.put(tick), timeout=0.1)\<close>, with no consumer running during the
  wait: the tick is appended when the queue has room, and dropped when it is full (the
  \<open>TimeoutError\<close> branch).
\<close>

definition put_with_timeout :: "MarketTick option \<Rightarrow> queue \<Rightarrow> queue" where
  "put_with_timeout item q = (if length q < maxsize then q @ [item] else q)"

definition subscribers_of :: "MarketDataSimulator \<Rightarrow> string \<Rightarrow> nat list" where
  "subscribers_of sim ins = (case map_of (subscribers sim) ins of None \<Rightarrow> [] | Some qs \<Rightarrow> qs)"

definition broadcast_tick :: "MarketDataSimulator \<Rightarrow> string \<Rightarrow> MarketTick \<Rightarrow> MarketDataSimulator" where
  "broadcast_tick sim ins tick =
     sim\<lparr>queue_store :=
           foldl (\<lambda>st q. st(q := put_with_timeout (Some tick) (st q)))
             (queue_store sim) (subscribers_of sim ins)\<rparr>"

text \<open>\<open>round(x, 2)\<close>: the nearest multiple of a hundredth, a tie going to the even one.\<close>

definition py_round2 :: "real \<Rightarrow> real" where
  "py_round2 x =
     (let y = x * 100; f = \<lfloor>y\<rfloor>; r = y - of_int f
      in (if r < 1 / 2 then of_int f
          else if 1 / 2 < r then of_int (f + 1)
          else if even f then of_int f else of_int (f + 1)) / 100)"

text \<open>\<open>random.uniform(a, b)\<close> is \<open>a + (b - a) * random()\<close>; the successive values of
  \<open>random()\<close> are a parameter of the model.\<close>

definition uniform :: "real \<Rightarrow> real \<Rightarrow> real \<Rightarrow> real" where
  "uniform a b r = a + (b - a) * r"

text \<open>
  The loop of \<open>_generate_and_broadcast_ticks\<close> over the keys of the registry. \<open>k\<close> counts
  the calls of \<open>random()\<close>. Reading the price of an instrument that the price map does not
  have raises \<open>KeyError\<close>: the loop stops there, and what it has written so far stays.
\<close>

fun tick_loop ::
  "real \<Rightarrow> (nat \<Rightarrow> real) \<Rightarrow> datetime \<Rightarrow> nat \<Rightarrow> string list \<Rightarrow> MarketDataSimulator \<Rightarrow>
   MarketDataSimulator \<times> py_exception option" where
  "tick_loop v rnd now k [] sim = (sim, None)"
| "tick_loop v rnd now k (ins # rest) sim =
     (case current_prices sim ins of
        None \<Rightarrow> (sim, Some (KeyError ins))
      | Some current_price \<Rightarrow>
          let change_percent = uniform (- v) v (rnd k);
              new_price = current_price * (1 + change_percent);
              new_price = py_round2 new_price;
              sim = sim\<lparr>current_prices := (current_prices sim)(ins \<mapsto> new_price)\<rparr>;
              tick = \<lparr>tick_instrument = ins, tick_price = new_price, tick_timestamp = now\<rparr>;
              sim = broadcast_tick sim ins tick
          in tick_loop v rnd now (k + 1) rest sim)"

definition generate_and_broadcast_ticks ::
  "real \<Rightarrow> (nat \<Rightarrow> real) \<Rightarrow> datetime \<Rightarrow> MarketDataSimulator \<Rightarrow>
   MarketDataSimulator \<times> py_exception option" where
  "generate_and_broadcast_ticks v rnd now sim =
     tick_loop v rnd now 0 (map fst (subscribers sim)) sim"

section \<open>The strategy engine\<close>

text \<open>
  The engine's two rosters hold the same strategy objects, and the strategy tasks mutate
  them: strategies live in a store, and the rosters hold references.
\<close>

record StrategyEngine =
  market_simulator :: MarketDataSimulator
  objects :: "nat \<Rightarrow> Strategy"
  strategies :: "nat list"
  active_strategies :: "nat list"

definition enter_position :: "Strategy \<Rightarrow> real \<Rightarrow> datetime \<Rightarrow> Strategy" where
  "enter_position s price now =
     (let order = \<lparr>order_strategy_id = strategy_id s, order_instrument = instrument s,
                   side = ''BUY'', order_quantity = quantity s, order_price = price,
                   order_timestamp = now\<rparr>
      in enter s price now)"

definition exit_position :: "Strategy \<Rightarrow> real \<Rightarrow> ExitReason \<Rightarrow> datetime \<Rightarrow> Strategy" where
  "exit_position s price reason now =
     (let order = \<lparr>order_strategy_id = strategy_id s, order_instrument = instrument s,
                   side = ''SELL'', order_quantity = quantity s, order_price = price,
                   order_timestamp = now\<rparr>
      in exit s price reason now)"

text \<open>\<open>_evaluate_strategy\<close>: one strategy, one tick. \<open>ev\<close> is Python's \<open>eval\<close> and
  \<open>now\<close> the clock.\<close>

definition evaluate_strategy :: "py_eval \<Rightarrow> datetime \<Rightarrow> Strategy \<Rightarrow> MarketTick \<Rightarrow> Strategy" where
  "evaluate_strategy ev now s tick =
     (if state s = CREATED then
        (if evaluate ev now (entry_condition s) (tick_price tick)
         then enter_position s (tick_price tick) now
         else s)
      else if state s = OPEN then
        (let current_pnl = calculate_pnl s (tick_price tick) in
         if current_pnl \<le> - max_loss s then
           exit_position s (tick_price tick) STOP_LOSS now
         else if current_pnl \<ge> max_profit s then
           exit_position s (tick_price tick) TARGET_HIT now
         else if evaluate ev now (exit_condition s) (tick_price tick) then
           exit_position s (tick_price tick) EXIT_CONDITION now
         else s)
      else s)"

definition force_close_strategy ::
  "MarketDataSimulator \<Rightarrow> datetime \<Rightarrow> Strategy \<Rightarrow> ExitReason \<Rightarrow> Strategy" where
  "force_close_strategy sim now s reason =
     (if is_open s
      then (let current_price = get_current_price sim (instrument s)
            in exit_position s current_price reason now)
      else s)"

text \<open>\<open>force_close_all\<close>: the loop over the active roster, writing to the store.\<close>

definition force_close_step ::
  "MarketDataSimulator \<Rightarrow> datetime \<Rightarrow> (nat \<Rightarrow> Strategy) \<Rightarrow> nat \<Rightarrow> (nat \<Rightarrow> Strategy)" where
  "force_close_step sim now st r =
     (if is_open (st r) then st(r := force_close_strategy sim now (st r) MARKET_CLOSE) else st)"

definition force_close_all :: "datetime \<Rightarrow> StrategyEngine \<Rightarrow> StrategyEngine" where
  "force_close_all now e =
     e\<lparr>objects := foldl (force_close_step (market_simulator e) now) (objects e)
                     (active_strategies e)\<rparr>"

text \<open>
  \<open>get_statistics\<close>. The \<open>pnl\<close> field is a float and never \<open>None\<close>, so the sum of
  \<open>total_pnl\<close> runs over all strategies; \<open>s.pnl and s.pnl > 0\<close> is a non-zero and
  positive \<open>pnl\<close>.
\<close>

record Statistics =
  total :: nat
  completed :: nat
  force_closed :: nat
  failed :: nat
  never_entered :: nat
  total_pnl :: real
  winners :: nat
  losers :: nat

definition get_statistics :: "StrategyEngine \<Rightarrow> Statistics" where
  "get_statistics e =
     (let ss = map (objects e) (strategies e) in
      \<lparr>total = length ss,
       completed = sum_list [1. s \<leftarrow> ss, state s = CLOSED],
       force_closed = sum_list [1. s \<leftarrow> ss, state s = FORCE_CLOSED],
       failed = sum_list [1. s \<leftarrow> ss, state s = FAILED],
       never_entered = sum_list [1. s \<leftarrow> ss, state s = CREATED],
       total_pnl = sum_list [pnl s. s \<leftarrow> ss],
       winners = sum_list [1. s \<leftarrow> ss, pnl s \<noteq> 0 \<and> pnl s > 0],
       losers = sum_list [1. s \<leftarrow> ss, pnl s \<noteq> 0 \<and> pnl s < 0]\<rparr>)"

text \<open>
  One iteration of the loop of \<open>start\<close>: while the simulator is running a round is
  generated, and an exception of the round stops the simulator.
\<close>

definition start_round :: "real \<Rightarrow> (nat \<Rightarrow> real) \<Rightarrow> datetime \<Rightarrow> MarketDataSimulator \<Rightarrow> MarketDataSimulator" where
  "start_round v rnd now sim =
     (if is_running sim
      then (case generate_and_broadcast_ticks v rnd now sim of
              (sim', None) \<Rightarrow> sim'
            | (sim', Some e) \<Rightarrow> sim'\<lparr>is_running := False\<rparr>)
      else sim)"

section \<open>Tasks and events\<close>

text \<open>
  Between two suspension points a task runs alone, so a run of the engine is a sequence of
  steps of single tasks. For one strategy the steps that touch its record are the ticks its
  task evaluates and the force-close.
\<close>

datatype strategy_event = Tick py_eval datetime MarketTick | ForceClose MarketDataSimulator datetime

fun apply_event :: "Strategy \<Rightarrow> strategy_event \<Rightarrow> Strategy" where
  "apply_event s (Tick ev now tick) = evaluate_strategy ev now s tick"
| "apply_event s (ForceClose sim now) = force_close_strategy sim now s MARKET_CLOSE"

text \<open>
  \<open>run\<close> puts every strategy on both rosters before any task starts. After that a task
  evaluates ticks for its strategy while it is on the active roster; it ends (the stop
  signal or a cancellation: force-close if open, then leave the active roster) or fails
  (\<open>mark_failed\<close>, then leave the active roster); the coordinator force-closes all; the
  simulator generates a round. The tick of \<open>TickFor\<close> is any tick, not only one that is
  in the queue. Strategy identifiers are unique, so the membership test and the removal of
  the source, which compare by equality, find the object itself.
\<close>

definition run :: "MarketDataSimulator \<Rightarrow> (nat \<Rightarrow> Strategy) \<Rightarrow> nat list \<Rightarrow> StrategyEngine" where
  "run sim store refs =
     \<lparr>market_simulator = sim, objects = store, strategies = refs, active_strategies = refs\<rparr>"

datatype engine_event =
    TickFor nat py_eval datetime MarketTick
  | TaskEnds nat datetime
  | TaskFails nat
  | ForceCloseAll datetime
  | Feed real "nat \<Rightarrow> real" datetime

fun engine_step :: "StrategyEngine \<Rightarrow> engine_event \<Rightarrow> StrategyEngine" where
  "engine_step e (TickFor r ev now tick) =
     (if r \<in> set (active_strategies e)
      then e\<lparr>objects := (objects e)(r := evaluate_strategy ev now (objects e r) tick)\<rparr>
      else e)"
| "engine_step e (TaskEnds r now) =
     (if r \<in> set (active_strategies e)
      then e\<lparr>objects := (objects e)
                 (r := force_close_strategy (market_simulator e) now (objects e r) MARKET_CLOSE),
             active_strategies := remove1 r (active_strategies e)\<rparr>
      else e)"
| "engine_step e (TaskFails r) =
     (if r \<in> set (active_strategies e)
      then e\<lparr>objects := (objects e)(r := mark_failed (objects e r)),
             active_strategies := remove1 r (active_strategies e)\<rparr>
      else e)"
| "engine_step e (ForceCloseAll now) = force_close_all now e"
| "engine_step e (Feed v rnd now) =
     e\<lparr>market_simulator := start_round v rnd now (market_simulator e)\<rparr>"

section \<open>Notions used in the statements\<close>

text \<open>The price an instrument gets from the \<open>k\<close>-th draw of a round.\<close>

definition next_price :: "real \<Rightarrow> (nat \<Rightarrow> real) \<Rightarrow> nat \<Rightarrow> real \<Rightarrow> real" where
  "next_price v rnd k old = py_round2 (old * (1 + uniform (- v) v (rnd k)))"

text \<open>One pass of the loop of a round, for an instrument whose price is \<open>old\<close>.\<close>

definition step_sim :: "real \<Rightarrow> (nat \<Rightarrow> real) \<Rightarrow> datetime \<Rightarrow> nat \<Rightarrow> string \<Rightarrow> real \<Rightarrow> MarketDataSimulator \<Rightarrow> MarketDataSimulator" where
  "step_sim v rnd now k ins old sim =
     broadcast_tick (sim\<lparr>current_prices := (current_prices sim)(ins \<mapsto> next_price v rnd k old)\<rparr>) ins
       \<lparr>tick_instrument = ins, tick_price = next_price v rnd k old, tick_timestamp = now\<rparr>"




text \<open>
  The invariant of the runtime fields of a strategy: the entry price is set exactly when
  the state is no longer \<open>CREATED\<close>, the exit price and the exit reason are set exactly
  when the strategy is closed. The second predicate exempts failed strategies.
\<close>

definition progressed_beyond_created :: "StrategyState \<Rightarrow> bool" where
  "progressed_beyond_created st = (st \<noteq> CREATED)"

definition field_invariant :: "Strategy \<Rightarrow> bool" where
  "field_invariant s =
     ((entry_price s \<noteq> None) = progressed_beyond_created (state s) \<and>
      (exit_price s \<noteq> None) = is_closed s \<and>
      (exit_reason s \<noteq> None) = is_closed s)"

definition lifecycle_invariant :: "Strategy \<Rightarrow> bool" where
  "lifecycle_invariant s = (state s = FAILED \<or> field_invariant s)"

text \<open>Every strategy of the roster that is open is on the active roster.\<close>

definition open_are_active :: "StrategyEngine \<Rightarrow> bool" where
  "open_are_active e =
     list_all (\<lambda>r. state (objects e r) = OPEN \<longrightarrow> r \<in> set (active_strategies e)) (strategies e)"

section \<open>Sample data\<close>

text \<open>
  A strategy on \<open>NIFTY\<close> with quantity 10, maximal loss 50 and profit target 40; the same
  strategy after a tick at 100 has opened it, and after a further tick at 105 or at 95.
  \<open>eval_true\<close> stands for an \<open>eval\<close> that finds every condition true.
  \<open>foreign_condition\<close> is a condition with an identifier that is neither \<open>price\<close>
  nor \<open>time\<close>, and \<open>foreign_tree\<close> is its syntax tree.
\<close>

definition foreign_condition :: string where
  "foreign_condition = ''price > 0 or pri1ce''"

definition foreign_tree :: py_expr where
  "foreign_tree = BoolOr (Compare (Name ''price'') Gt (Constant (PyInt 0))) (Name ''pri1ce'')"

definition t0 :: datetime where "t0 = \<lparr>hour = 9, minute = 30, second = 0\<rparr>"

definition t1 :: datetime where "t1 = \<lparr>hour = 9, minute = 31, second = 0\<rparr>"

definition eval_true :: py_eval where
  "eval_true e g l = Inr (PyBool True)"

definition s_new :: Strategy where
  "s_new = new_strategy ''S1'' ''NIFTY'' ''price > 99'' ''price < 96'' 10 50 40"

definition s_open :: Strategy where
  "s_open = evaluate_strategy eval_true t0 s_new
     \<lparr>tick_instrument = ''NIFTY'', tick_price = 100, tick_timestamp = t0\<rparr>"

definition s_target :: Strategy where
  "s_target = evaluate_strategy eval_true t1 s_open
     \<lparr>tick_instrument = ''NIFTY'', tick_price = 105, tick_timestamp = t1\<rparr>"

definition s_stopped :: Strategy where
  "s_stopped = evaluate_strategy eval_true t1 s_open
     \<lparr>tick_instrument = ''NIFTY'', tick_price = 95, tick_timestamp = t1\<rparr>"

definition tick95 :: MarketTick where
  "tick95 = \<lparr>tick_instrument = ''NIFTY'', tick_price = 95, tick_timestamp = t1\<rparr>"

definition tick105 :: MarketTick where
  "tick105 = \<lparr>tick_instrument = ''NIFTY'', tick_price = 105, tick_timestamp = t1\<rparr>"

definition tick101 :: MarketTick where
  "tick101 = \<lparr>tick_instrument = ''NIFTY'', tick_price = 101, tick_timestamp = t1\<rparr>"


definition sim_nifty :: MarketDataSimulator where
  "sim_nifty = \<lparr>is_running = True, subscribers = [(''NIFTY'', [0])],
           current_prices = [''NIFTY'' \<mapsto> 20100, ''BANKNIFTY'' \<mapsto> 45000],
           queue_store = (\<lambda>_. [])\<rparr>"


definition sim_empty :: MarketDataSimulator where
  "sim_empty = \<lparr>is_running = False, subscribers = [], current_prices = Map.empty,
           queue_store = (\<lambda>_. [])\<rparr>"

definition engine3 :: StrategyEngine where
  "engine3 = \<lparr>market_simulator = sim_nifty,
             objects = (\<lambda>_. s_new)(1 := s_target, 2 := s_stopped),
             strategies = [0, 1, 2], active_strategies = [0, 1, 2]\<rparr>"

definition engine_open :: StrategyEngine where
  "engine_open = \<lparr>market_simulator = sim_nifty, objects = (\<lambda>_. s_new)(0 := s_open),
             strategies = [0], active_strategies = [0]\<rparr>"

section \<open>Time normalisation\<close>

lemma is_digit_not_colon: "is_digit c \<Longrightarrow> c \<noteq> CHR '':''"
  by (auto simp: is_digit_def)

lemma digit_char_is_digit: "d < 10 \<Longrightarrow> is_digit (digit_char d)"
proof -
  assume "d < 10"
  then have "d \<in> {0,1,2,3,4,5,6,7,8,9}" by auto
  then show ?thesis by (auto simp: is_digit_def digit_char_def)
qed

lemma py_str_digits: "list_all is_digit (py_str n)"
proof (induction n rule: py_str.induct)
  case (1 n)
  show ?case
  proof (cases "n < 10")
    case True
    then show ?thesis by (simp add: py_str.simps [of n] digit_char_is_digit)
  next
    case False
    with 1 show ?thesis by (simp add: py_str.simps [of n] digit_char_is_digit)
  qed
qed

lemma match_hm_colon: "match_hm k s \<Longrightarrow> CHR '':'' \<in> set s"
proof -
  assume h: "match_hm k s"
  then have "k < length s" and "s ! k = CHR '':''" by (auto simp: match_hm_def)
  then show ?thesis by (metis nth_mem)
qed

lemma match_time_no_colon: "CHR '':'' \<notin> set s \<Longrightarrow> match_time s = None"
  using match_hm_colon by (auto simp: match_time_def)

lemma re_sub_no_colon: "CHR '':'' \<notin> set s \<Longrightarrow> re_sub match_time r s = s"
proof (induction s)
  case Nil
  show ?case by simp
next
  case (Cons c cs)
  then have "match_time (c # cs) = None" by (intro match_time_no_colon) simp
  with Cons show ?case by simp
qed

lemma normalize_time_digits: "list_all is_digit s \<Longrightarrow> normalize_time s = s"
  unfolding normalize_time_def
  by (rule re_sub_no_colon) (auto simp: list_all_iff dest: is_digit_not_colon)

lemma normalize_hh:
  assumes "is_digit a" "is_digit b" "is_digit c" "is_digit d"
  shows "normalize_time [a, b, CHR '':'', c, d] = py_str (py_int [a, b] * 60 + py_int [c, d])"
  using assms
  by (simp add: normalize_time_def match_time_def match_hm_def time_repl_def is_digit_not_colon)

lemma normalize_h:
  assumes "is_digit b" "is_digit c" "is_digit d"
  shows "normalize_time [b, CHR '':'', c, d] = py_str (py_int [b] * 60 + py_int [c, d])"
  using assms
  by (simp add: normalize_time_def match_time_def match_hm_def time_repl_def is_digit_not_colon)

lemma py_int_two: "py_int [a, b] = 10 * digit_val a + digit_val b"
  by (simp add: py_int_def)

lemma py_int_one: "py_int [b] = digit_val b"
  by (simp add: py_int_def)

text \<open>Outside single literals the scan can leave a digit before a colon, so a second
  pass finds a match that the first did not.\<close>

lemma normalize_time_chained:
  "normalize_time ''1:00:30'' = ''60:30'' \<and> normalize_time ''60:30'' = ''3630''"
  by code_simp

text \<open>
  C8. Normalising \<open>09:15\<close> gives \<open>555\<close> and normalising \<open>15:20\<close> gives \<open>920\<close>. For
  every literal of one or two hour digits, a colon and two minute digits, the result is
  the decimal numeral of sixty times the hours plus the minutes, and normalising that
  result again changes nothing. More generally a second pass changes nothing whenever the
  first pass has left no colon in the text.
\<close>

theorem normalize_time_literal:
  "normalize_time ''09:15'' = ''555'' \<and> normalize_time ''15:20'' = ''920'' \<and>
   (hhmm_literal hs ms \<longrightarrow>
      normalize_time (hs @ '':'' @ ms) = py_str (py_int hs * 60 + py_int ms) \<and>
      normalize_time (normalize_time (hs @ '':'' @ ms)) = normalize_time (hs @ '':'' @ ms)) \<and>
   (CHR '':'' \<notin> set (normalize_time expr) \<longrightarrow>
      normalize_time (normalize_time expr) = normalize_time expr)"
proof (intro conjI impI)
  show "normalize_time ''09:15'' = ''555''" by code_simp
  show "normalize_time ''15:20'' = ''920''" by code_simp
next
  assume "CHR '':'' \<notin> set (normalize_time expr)"
  then show "normalize_time (normalize_time expr) = normalize_time expr"
    unfolding normalize_time_def [of "re_sub match_time time_repl expr"] normalize_time_def [of expr]
    by (rule re_sub_no_colon)
next
  assume lit: "hhmm_literal hs ms"
  then obtain c d where ms: "ms = [c, d]" and cd: "is_digit c" "is_digit d"
    by (cases ms; cases "tl ms") (auto simp: hhmm_literal_def)
  from lit consider a b where "hs = [a, b]" "is_digit a" "is_digit b"
    | b where "hs = [b]" "is_digit b"
    by (cases hs; cases "tl hs") (auto simp: hhmm_literal_def)
  then show eq: "normalize_time (hs @ '':'' @ ms) = py_str (py_int hs * 60 + py_int ms)"
  proof cases
    case 1
    with ms cd show ?thesis using normalize_hh [of a b c d] by simp
  next
    case 2
    with ms cd show ?thesis using normalize_h [of b c d] by simp
  qed
  show "normalize_time (normalize_time (hs @ '':'' @ ms)) = normalize_time (hs @ '':'' @ ms)"
    unfolding eq by (rule normalize_time_digits) (rule py_str_digits)
qed

theorem normalize_time_literal_witness:
  "hhmm_literal ''09'' ''15'' \<and>
   normalize_time (''09'' @ '':'' @ ''15'') = py_str (py_int ''09'' * 60 + py_int ''15'') \<and>
   py_str (py_int ''09'' * 60 + py_int ''15'') = ''555'' \<and>
   normalize_time (normalize_time (''09'' @ '':'' @ ''15'')) = normalize_time (''09'' @ '':'' @ ''15'') \<and>
   normalize_time ''time >= 15:20 OR price > 9:05'' = ''time >= 920 OR price > 545'' \<and>
   CHR '':'' \<notin> set (normalize_time ''time >= 15:20 OR price > 9:05'') \<and>
   normalize_time (normalize_time ''time >= 15:20 OR price > 9:05'') =
     normalize_time ''time >= 15:20 OR price > 9:05''"
proof -
  have h: "hhmm_literal ''09'' ''15''" by (simp add: hhmm_literal_def is_digit_def)
  have v: "py_str (py_int ''09'' * 60 + py_int ''15'') = ''555''" by code_simp
  have n: "normalize_time ''time >= 15:20 OR price > 9:05'' = ''time >= 920 OR price > 545''"
    by code_simp
  have c: "CHR '':'' \<notin> set (normalize_time ''time >= 15:20 OR price > 9:05'')"
    unfolding n by simp
  from h v n c normalize_time_literal [of "''09''" "''15''" "''time >= 15:20 OR price > 9:05''"]
  show ?thesis by blast
qed

section \<open>The condition evaluator fails closed\<close>

lemma re_sub_keeps:
  assumes "\<And>t n. m t = Some n \<Longrightarrow> x \<notin> set (take n t)" and "x \<in> set s"
  shows "x \<in> set (re_sub m repl s)"
  using assms(2)
proof (induction "length s" arbitrary: s rule: less_induct)
  case less
  show ?case
  proof (cases s)
    case Nil
    with less.prems show ?thesis by simp
  next
    case (Cons c cs)
    show ?thesis
    proof (cases "m (c # cs)")
      case None
      with less Cons show ?thesis by auto
    next
      case (Some n)
      show ?thesis
      proof (cases "n = 0")
        case True
        with Some less Cons show ?thesis by auto
      next
        case False
        from Some have "x \<notin> set (take n (c # cs))" by (rule assms(1))
        moreover have "set (c # cs) = set (take n (c # cs)) \<union> set (drop n (c # cs))"
          by (metis append_take_drop_id set_append)
        ultimately have "x \<in> set (drop n (c # cs))" using less.prems Cons by blast
        moreover from False have "length (drop n (c # cs)) < length s" using Cons by simp
        ultimately have "x \<in> set (re_sub m repl (drop n (c # cs)))" by (rule less.hyps [rotated])
        with Some False Cons show ?thesis by simp
      qed
    qed
  qed
qed

lemma match_number_chars:
  assumes "match_number t = Some n" shows "\<forall>c \<in> set (take n t). is_digit c \<or> c = CHR ''.''"
proof -
  define ds where "ds = takeWhile is_digit t"
  define r1 where "r1 = drop (length ds) t"
  define dot where "dot = (case r1 of [] \<Rightarrow> 0 | c # _ \<Rightarrow> if c = CHR ''.'' then 1 else (0::nat))"
  define r2 where "r2 = drop dot r1"
  from assms have n: "n = length ds + dot + length (takeWhile is_digit r2)"
    by (auto simp: match_number_def Let_def ds_def r1_def dot_def r2_def split: if_splits)
  have t: "t = ds @ r1" by (simp add: ds_def r1_def dropWhile_eq_drop [symmetric])
  have r1: "r1 = take dot r1 @ r2" by (simp add: r2_def)
  have r2: "r2 = takeWhile is_digit r2 @ dropWhile is_digit r2" by simp
  have "take n t = ds @ take dot r1 @ takeWhile is_digit r2"
  proof -
    have "t = (ds @ take dot r1 @ takeWhile is_digit r2) @ dropWhile is_digit r2"
      using t r1 r2 by (metis append.assoc)
    moreover have "length (ds @ take dot r1 @ takeWhile is_digit r2) = n"
    proof -
      have "dot \<le> length r1" by (auto simp: dot_def split: list.splits)
      then show ?thesis by (simp add: n)
    qed
    ultimately show ?thesis by (metis append_eq_conv_conj)
  qed
  moreover have "\<forall>c \<in> set ds. is_digit c" by (auto simp: ds_def dest: set_takeWhileD)
  moreover have "\<forall>c \<in> set (take dot r1). c = CHR ''.''"
    by (cases r1) (auto simp: dot_def)
  moreover have "\<forall>c \<in> set (takeWhile is_digit r2). is_digit c" by (auto dest: set_takeWhileD)
  ultimately show ?thesis by auto
qed

lemma match_alt_chars:
  assumes "match_alt lits t = Some n" shows "take n t \<in> set lits"
proof -
  from assms obtain l ls where f: "filter (\<lambda>l. take (length l) t = l) lits = l # ls" and n: "n = length l"
    by (auto simp: match_alt_def split: list.splits)
  from f have "l \<in> set (filter (\<lambda>l. take (length l) t = l) lits)" by simp
  then have "l \<in> set lits" "take (length l) t = l" by auto
  with n show ?thesis by simp
qed

lemma match_class_plus_chars:
  assumes "match_class_plus P t = Some n" shows "\<forall>c \<in> set (take n t). P c"
proof -
  from assms have "n = length (takeWhile P t)"
    by (auto simp: match_class_plus_def Let_def split: if_splits)
  then have "take n t = takeWhile P t" by (metis append_eq_conv_conj takeWhile_dropWhile_id)
  then show ?thesis by (auto dest: set_takeWhileD)
qed

lemma match_class_chars:
  assumes "match_class P t = Some n" shows "\<forall>c \<in> set (take n t). P c"
  using assms by (cases t) (auto simp: match_class_def split: if_splits)

lemma match_time_chars:
  assumes "match_time t = Some n" shows "\<forall>c \<in> set (take n t). is_digit c \<or> c = CHR '':''"
proof -
  have *: "\<forall>c \<in> set (take (k + 3) t). is_digit c \<or> c = CHR '':''" if "match_hm k t" for k
  proof -
    from that have len: "k + 3 \<le> length t" and d: "list_all is_digit (take k t)"
      and c: "t ! k = CHR '':''" and m1: "is_digit (t ! (k + 1))" and m2: "is_digit (t ! (k + 2))"
      by (auto simp: match_hm_def)
    have "take (k + 3) t = take k t @ [t ! k, t ! (k + 1), t ! (k + 2)]"
      using len by (simp add: take_Suc_conv_app_nth numeral_3_eq_3)
    with d c m1 m2 show ?thesis by (auto simp: list_all_iff)
  qed
  from assms consider "match_hm 2 t" "n = 5" | "match_hm 1 t" "n = 4"
    by (auto simp: match_time_def split: if_splits)
  then show ?thesis
  proof cases
    case 1 with *[of 2] show ?thesis by simp
  next
    case 2 with *[of 1] show ?thesis by simp
  qed
qed

lemma safe_eval_unsafe:
  "\<not> is_safe_expression (normalized_expression c) \<Longrightarrow>
   safe_eval ev c vars = Inl (ValueError (''Unsafe expression: '' @ normalized_expression c))"
  by (simp add: safe_eval_def normalized_expression_def Let_def)

lemma evaluate_unsafe:
  "\<not> is_safe_expression (normalized_expression c) \<Longrightarrow> evaluate ev now c p = False"
  by (simp add: evaluate_def evaluate_body_def safe_eval_unsafe Let_def)

lemma space_is_space: "is_space CHR '' ''"
  by (simp add: is_space_def)

lemma not_allowedD:
  assumes "\<not> allowed_char x"
  shows "\<not> is_digit x" "x \<noteq> CHR ''.''" "x \<notin> set ''pricetimeandor''" "x \<notin> set ''ANDOR''"
    "\<not> is_cmp_char x" "\<not> is_space x" "\<not> is_paren_colon x"
  using assms unfolding allowed_char_def by blast+

lemma not_allowed_lits:
  assumes "\<not> allowed_char x"
  shows "x \<notin> set '' AND ''" "x \<notin> set '' OR ''" "x \<notin> set ''price''" "x \<notin> set ''time''"
    "x \<notin> set ''and''" "x \<notin> set ''or''" "x \<noteq> CHR '':''"
proof -
  note d = not_allowedD [OF assms]
  from d(6) space_is_space have sp: "x \<noteq> CHR '' ''" by blast
  from d(4) sp show "x \<notin> set '' AND ''" by simp
  from d(4) sp show "x \<notin> set '' OR ''" by simp
  from d(3) show "x \<notin> set ''price''" by simp
  from d(3) show "x \<notin> set ''time''" by simp
  from d(3) show "x \<notin> set ''and''" by simp
  from d(3) show "x \<notin> set ''or''" by simp
  from d(7) show "x \<noteq> CHR '':''" by (simp add: is_paren_colon_def)
qed

lemma normalized_keeps:
  assumes "x \<in> set c" and "\<not> allowed_char x"
  shows "x \<in> set (normalized_expression c)"
proof -
  note a = not_allowed_lits(1) [OF assms(2)] and o = not_allowed_lits(2) [OF assms(2)]
  have 1: "x \<in> set (str_replace '' AND '' '' and '' c)"
    unfolding str_replace_def
  proof (rule re_sub_keeps [OF _ assms(1)])
    fix t n assume "match_alt ['' AND ''] t = Some n"
    then have "take n t \<in> set ['' AND '']" by (rule match_alt_chars)
    with a show "x \<notin> set (take n t)" by simp
  qed
  have 2: "x \<in> set (str_replace '' OR '' '' or '' (str_replace '' AND '' '' and '' c))"
    unfolding str_replace_def [of "'' OR ''"]
  proof (rule re_sub_keeps [OF _ 1])
    fix t n assume "match_alt ['' OR ''] t = Some n"
    then have "take n t \<in> set ['' OR '']" by (rule match_alt_chars)
    with o show "x \<notin> set (take n t)" by simp
  qed
  show ?thesis
    unfolding normalized_expression_def normalize_time_def
  proof (rule re_sub_keeps [OF _ 2])
    fix t n assume "match_time t = Some n"
    then have "\<forall>c \<in> set (take n t). is_digit c \<or> c = CHR '':''" by (rule match_time_chars)
    with not_allowedD(1) [OF assms(2)] not_allowed_lits(7) [OF assms(2)]
    show "x \<notin> set (take n t)" by blast
  qed
qed

lemma cleaned_keeps:
  assumes "x \<in> set e" and "\<not> allowed_char x"
  shows "\<not> is_safe_expression e"
proof -
  have 1: "x \<in> set (re_sub match_number del e)"
  proof (rule re_sub_keeps [OF _ assms(1)])
    fix t n assume "match_number t = Some n"
    then have "\<forall>c \<in> set (take n t). is_digit c \<or> c = CHR ''.''" by (rule match_number_chars)
    with not_allowedD(1,2) [OF assms(2)] show "x \<notin> set (take n t)" by blast
  qed
  have 2: "x \<in> set (re_sub (match_alt [''price'', ''time'']) del (re_sub match_number del e))"
  proof (rule re_sub_keeps [OF _ 1])
    fix t n assume "match_alt [''price'', ''time''] t = Some n"
    then have "take n t = ''price'' \<or> take n t = ''time''" using match_alt_chars by fastforce
    with not_allowed_lits(3,4) [OF assms(2)] show "x \<notin> set (take n t)" by metis
  qed
  have 3: "x \<in> set (re_sub (match_class_plus is_cmp_char) del
             (re_sub (match_alt [''price'', ''time'']) del (re_sub match_number del e)))"
  proof (rule re_sub_keeps [OF _ 2])
    fix t n assume "match_class_plus is_cmp_char t = Some n"
    then have "\<forall>c \<in> set (take n t). is_cmp_char c" by (rule match_class_plus_chars)
    with not_allowedD(5) [OF assms(2)] show "x \<notin> set (take n t)" by blast
  qed
  have 4: "x \<in> set (re_sub (match_class_plus is_space) del
             (re_sub (match_class_plus is_cmp_char) del
             (re_sub (match_alt [''price'', ''time'']) del (re_sub match_number del e))))"
  proof (rule re_sub_keeps [OF _ 3])
    fix t n assume "match_class_plus is_space t = Some n"
    then have "\<forall>c \<in> set (take n t). is_space c" by (rule match_class_plus_chars)
    with not_allowedD(6) [OF assms(2)] show "x \<notin> set (take n t)" by blast
  qed
  have 5: "x \<in> set (re_sub (match_alt [''and'', ''or'']) del
             (re_sub (match_class_plus is_space) del
             (re_sub (match_class_plus is_cmp_char) del
             (re_sub (match_alt [''price'', ''time'']) del (re_sub match_number del e)))))"
  proof (rule re_sub_keeps [OF _ 4])
    fix t n assume "match_alt [''and'', ''or''] t = Some n"
    then have "take n t = ''and'' \<or> take n t = ''or''" using match_alt_chars by fastforce
    with not_allowed_lits(5,6) [OF assms(2)] show "x \<notin> set (take n t)" by metis
  qed
  have 6: "x \<in> set (re_sub (match_class is_paren_colon) del
             (re_sub (match_alt [''and'', ''or'']) del
             (re_sub (match_class_plus is_space) del
             (re_sub (match_class_plus is_cmp_char) del
             (re_sub (match_alt [''price'', ''time'']) del (re_sub match_number del e))))))"
  proof (rule re_sub_keeps [OF _ 5])
    fix t n assume "match_class is_paren_colon t = Some n"
    then have "\<forall>c \<in> set (take n t). is_paren_colon c" by (rule match_class_chars)
    with not_allowedD(7) [OF assms(2)] show "x \<notin> set (take n t)" by blast
  qed
  then show ?thesis by (auto simp: is_safe_expression_def Let_def)
qed

text \<open>
  \<open>evaluate\<close> returns a boolean whatever \<open>eval\<close> does: it is true exactly when the
  body of the \<open>try\<close> returns true, so every exception of the body gives false. An
  expression that the safety check rejects raises \<open>ValueError\<close> in the body and evaluates
  to false; and the check rejects every condition that contains a character no allowed
  token contains, so every such condition evaluates to false.
\<close>

theorem evaluate_fails_closed:
  "evaluate ev now condition p = (evaluate_body ev now condition p = Inr True) \<and>
   (\<not> is_safe_expression (normalized_expression condition) \<longrightarrow>
      evaluate_body ev now condition p =
        Inl (ValueError (''Unsafe expression: '' @ normalized_expression condition)) \<and>
      evaluate ev now condition p = False) \<and>
   ((\<exists>c \<in> set condition. \<not> allowed_char c) \<longrightarrow> evaluate ev now condition p = False)"
proof (intro conjI impI)
  show "evaluate ev now condition p = (evaluate_body ev now condition p = Inr True)"
    by (cases "evaluate_body ev now condition p") (auto simp: evaluate_def)
next
  assume u: "\<not> is_safe_expression (normalized_expression condition)"
  then show "evaluate_body ev now condition p =
        Inl (ValueError (''Unsafe expression: '' @ normalized_expression condition))"
    by (simp add: evaluate_body_def safe_eval_unsafe Let_def)
  from u show "evaluate ev now condition p = False" by (rule evaluate_unsafe)
next
  assume "\<exists>c \<in> set condition. \<not> allowed_char c"
  then obtain x where x: "x \<in> set condition" "\<not> allowed_char x" by blast
  then have "x \<in> set (normalized_expression condition)" by (rule normalized_keeps)
  then have "\<not> is_safe_expression (normalized_expression condition)" using x(2) by (rule cleaned_keeps)
  then show "evaluate ev now condition p = False" by (rule evaluate_unsafe)
qed

theorem evaluate_fails_closed_witness:
  "(\<exists>c \<in> set ''price > 5 or x''. \<not> allowed_char c) \<and>
   \<not> is_safe_expression (normalized_expression ''price > 5 or x'') \<and>
   evaluate (\<lambda>e g l. Inr (PyBool True)) \<lparr>hour = 9, minute = 30, second = 0\<rparr> ''price > 5 or x'' 7 = False"
proof -
  have "\<not> allowed_char CHR ''x''"
    by (simp add: allowed_char_def is_digit_def is_cmp_char_def is_space_def is_paren_colon_def)
  then have h: "\<exists>c \<in> set ''price > 5 or x''. \<not> allowed_char c" by simp
  then obtain x where x: "x \<in> set ''price > 5 or x''" "\<not> allowed_char x" by blast
  then have "x \<in> set (normalized_expression ''price > 5 or x'')" by (rule normalized_keeps)
  then have u: "\<not> is_safe_expression (normalized_expression ''price > 5 or x'')"
    using x(2) by (rule cleaned_keeps)
  from h u evaluate_fails_closed [of "\<lambda>e g l. Inr (PyBool True)" "\<lparr>hour = 9, minute = 30, second = 0\<rparr>" "''price > 5 or x''" 7]
  show ?thesis by blast
qed

text \<open>
  The safety check strips the numbers first and the words \<open>price\<close> and \<open>time\<close>
  after them, so it takes \<open>pri1ce\<close> for \<open>price\<close>: the condition
  \<open>price > 0 or pri1ce\<close> passes the check and reaches \<open>eval\<close> as it is.
\<close>

lemma safe_eval_safe:
  "is_safe_expression (normalized_expression c) \<Longrightarrow>
   safe_eval ev c vars = ev (normalized_expression c) [(''__builtins__'', PyDict [])] (safe_dict @ vars)"
  by (simp add: safe_eval_def normalized_expression_def Let_def split: sum.splits)

lemma foreign_normalized: "normalized_expression foreign_condition = foreign_condition"
  by code_simp

lemma foreign_safe: "is_safe_expression foreign_condition"
  by code_simp

text \<open>
  C1. The condition \<open>price > 0 or pri1ce\<close> contains an identifier other than
  \<open>price\<close> and \<open>time\<close>. It is unchanged by the substitutions and accepted by the
  safety check, so \<open>evaluate\<close> returns what \<open>eval\<close> finds; and as \<open>or\<close> does not
  evaluate its right operand when the left one is true, \<open>evaluate\<close> returns true at the
  price 5, not false. On its own the identifier raises \<open>NameError\<close>, which gives false.
\<close>

theorem evaluate_admits_foreign_identifier:
  "normalized_expression foreign_condition = foreign_condition \<and>
   is_safe_expression foreign_condition \<and>
   evaluate ev now foreign_condition p =
     (case ev foreign_condition [(''__builtins__'', PyDict [])]
             (safe_dict @ [(''price'', PyFloat p), (''time'', PyInt (int (hour now * 60 + minute now)))]) of
        Inr result \<Rightarrow> py_bool result
      | Inl e \<Rightarrow> False) \<and>
   evaluate (eval_parsed foreign_condition foreign_tree) t0 foreign_condition 5 = True \<and>
   evaluate (eval_parsed ''pri1ce > 0'' (Compare (Name ''pri1ce'') Gt (Constant (PyInt 0)))) t0 ''pri1ce > 0'' 5 = False"
proof -
  have s: "is_safe_expression (normalized_expression foreign_condition)"
    by (simp add: foreign_normalized foreign_safe)
  have e: "evaluate ev now foreign_condition p =
     (case ev foreign_condition [(''__builtins__'', PyDict [])]
             (safe_dict @ [(''price'', PyFloat p), (''time'', PyInt (int (hour now * 60 + minute now)))]) of
        Inr result \<Rightarrow> py_bool result
      | Inl e \<Rightarrow> False)" for ev now p
    by (simp add: evaluate_def evaluate_body_def Let_def safe_eval_safe [OF s] foreign_normalized
        split: sum.splits)
  have t: "evaluate (eval_parsed foreign_condition foreign_tree) t0 foreign_condition 5 = True"
    unfolding e by (simp add: eval_parsed_def foreign_tree_def safe_dict_def)
  have f: "evaluate (eval_parsed ''pri1ce > 0'' (Compare (Name ''pri1ce'') Gt (Constant (PyInt 0)))) t0 ''pri1ce > 0'' 5 = False"
    by code_simp
  from foreign_normalized foreign_safe e t f show ?thesis by blast
qed

section \<open>Profit and loss\<close>

lemma exit_fields:
  "exit_price (exit s p r t) = Some p" "exit_reason (exit s p r t) = Some r"
  "exit_time (exit s p r t) = Some t" "pnl (exit s p r t) = calculate_pnl s p"
  "state (exit s p r t) = (if r = MARKET_CLOSE then FORCE_CLOSED else CLOSED)"
  "entry_price (exit s p r t) = entry_price s" "quantity (exit s p r t) = quantity s"
  "instrument (exit s p r t) = instrument s"
  by (simp_all add: exit_def Let_def calculate_pnl_def split: option.splits)

lemma exit_position_eq: "exit_position s p r t = exit s p r t"
  by (simp add: exit_position_def Let_def)

lemma enter_position_eq: "enter_position s p t = enter s p t"
  by (simp add: enter_position_def Let_def)

text \<open>
  C6. For a strategy whose entry price is set, the profit at a price is the price minus
  the entry price, times the quantity, whatever the sign: with quantity 10 and entry at
  100 it is 50 at 105 and -50 at 95, and an exit at these prices records these values.
\<close>

theorem calculate_pnl_long_only:
  "(entry_price s = Some e \<longrightarrow> calculate_pnl s price = (price - e) * of_int (quantity s)) \<and>
   (quantity s = 10 \<longrightarrow>
      calculate_pnl (enter s 100 t) 105 = 50 \<and> calculate_pnl (enter s 100 t) 95 = - 50 \<and>
      pnl (exit (enter s 100 t) 105 r t') = 50 \<and> pnl (exit (enter s 100 t) 95 r t') = - 50)"
  by (simp add: calculate_pnl_def enter_def exit_def Let_def)

theorem calculate_pnl_long_only_witness:
  "entry_price (enter (new_strategy ''S1'' ''NIFTY'' ''price > 99'' ''price > 104'' 10 100 40) 100
      \<lparr>hour = 9, minute = 30, second = 0\<rparr>) = Some 100 \<and>
   quantity (new_strategy ''S1'' ''NIFTY'' ''price > 99'' ''price > 104'' 10 100 40) = 10 \<and>
   calculate_pnl (enter (new_strategy ''S1'' ''NIFTY'' ''price > 99'' ''price > 104'' 10 100 40) 100
      \<lparr>hour = 9, minute = 30, second = 0\<rparr>) 105 = 50 \<and>
   pnl (exit (enter (new_strategy ''S1'' ''NIFTY'' ''price > 99'' ''price > 104'' 10 100 40) 100
      \<lparr>hour = 9, minute = 30, second = 0\<rparr>) 95 STOP_LOSS \<lparr>hour = 9, minute = 31, second = 0\<rparr>) = - 50"
proof -
  let ?s0 = "new_strategy ''S1'' ''NIFTY'' ''price > 99'' ''price > 104'' 10 100 40"
  let ?t = "\<lparr>hour = 9, minute = 30, second = 0\<rparr>"
  have q: "quantity ?s0 = 10" by (simp add: new_strategy_def)
  have e: "entry_price (enter ?s0 100 ?t) = Some 100" by (simp add: enter_def)
  from q e calculate_pnl_long_only [of "enter ?s0 100 ?t" 100 105]
    calculate_pnl_long_only [of ?s0 0 0 ?t STOP_LOSS "\<lparr>hour = 9, minute = 31, second = 0\<rparr>"]
  show ?thesis by (simp add: enter_def)
qed

section \<open>The sample strategies\<close>

lemma entry_check: "evaluate eval_true t0 ''price > 99'' 100 = True"
  by code_simp

lemma exit_check: "evaluate eval_true t1 ''price < 96'' 95 = True"
  by code_simp

lemma s_open_eq: "s_open = enter s_new 100 t0"
  using entry_check
  by (simp add: s_open_def evaluate_strategy_def s_new_def new_strategy_def enter_position_eq)

lemma s_open_fields:
  "state s_open = OPEN" "entry_price s_open = Some 100" "quantity s_open = 10"
  "max_loss s_open = 50" "max_profit s_open = 40" "exit_condition s_open = ''price < 96''"
  "instrument s_open = ''NIFTY''" "pnl s_open = 0"
  by (simp_all add: s_open_eq enter_def s_new_def new_strategy_def)

lemma s_target_eq: "s_target = exit s_open 105 TARGET_HIT t1"
  by (simp add: s_target_def evaluate_strategy_def s_open_fields calculate_pnl_def exit_position_eq)

lemma s_stopped_eq: "s_stopped = exit s_open 95 STOP_LOSS t1"
  by (simp add: s_stopped_def evaluate_strategy_def s_open_fields calculate_pnl_def exit_position_eq)

section \<open>The order of the risk checks\<close>

text \<open>
  C2. For an open strategy the tick is checked against the stop-loss first: when the
  profit at the tick price is at most minus the maximal loss, the strategy exits with
  reason \<open>STOP_LOSS\<close> and is closed, whatever the target and the exit condition say.
  Otherwise the target is checked, and only when neither fires the exit condition.
\<close>

theorem risk_checks_first:
  assumes "state s = OPEN"
  shows "(calculate_pnl s (tick_price tick) \<le> - max_loss s \<longrightarrow>
            evaluate_strategy ev now s tick = exit_position s (tick_price tick) STOP_LOSS now \<and>
            exit_reason (evaluate_strategy ev now s tick) = Some STOP_LOSS \<and>
            state (evaluate_strategy ev now s tick) = CLOSED) \<and>
         (\<not> calculate_pnl s (tick_price tick) \<le> - max_loss s \<and>
          calculate_pnl s (tick_price tick) \<ge> max_profit s \<longrightarrow>
            evaluate_strategy ev now s tick = exit_position s (tick_price tick) TARGET_HIT now \<and>
            exit_reason (evaluate_strategy ev now s tick) = Some TARGET_HIT) \<and>
         (\<not> calculate_pnl s (tick_price tick) \<le> - max_loss s \<and>
          \<not> calculate_pnl s (tick_price tick) \<ge> max_profit s \<longrightarrow>
            evaluate_strategy ev now s tick =
              (if evaluate ev now (exit_condition s) (tick_price tick)
               then exit_position s (tick_price tick) EXIT_CONDITION now else s))"
  using assms by (simp add: evaluate_strategy_def Let_def exit_position_eq exit_fields)

theorem risk_checks_first_witness:
  "state s_open = OPEN \<and>
   calculate_pnl s_open (tick_price tick95) \<le> - max_loss s_open \<and>
   evaluate eval_true t1 (exit_condition s_open) (tick_price tick95) \<and>
   exit_reason (evaluate_strategy eval_true t1 s_open tick95) = Some STOP_LOSS \<and>
   state (evaluate_strategy eval_true t1 s_open tick95) = CLOSED \<and>
   \<not> calculate_pnl s_open (tick_price tick105) \<le> - max_loss s_open \<and>
   calculate_pnl s_open (tick_price tick105) \<ge> max_profit s_open \<and>
   exit_reason (evaluate_strategy eval_true t1 s_open tick105) = Some TARGET_HIT \<and>
   \<not> calculate_pnl s_open (tick_price tick101) \<le> - max_loss s_open \<and>
   \<not> calculate_pnl s_open (tick_price tick101) \<ge> max_profit s_open \<and>
   evaluate_strategy eval_true t1 s_open tick101 =
     exit_position s_open (tick_price tick101) EXIT_CONDITION t1"
proof -
  have o: "state s_open = OPEN" by (simp add: s_open_fields)
  have l: "calculate_pnl s_open (tick_price tick95) \<le> - max_loss s_open"
    by (simp add: calculate_pnl_def s_open_fields tick95_def)
  have x: "evaluate eval_true t1 (exit_condition s_open) (tick_price tick95)"
    using exit_check by (simp add: s_open_fields tick95_def)
  have g: "\<not> calculate_pnl s_open (tick_price tick105) \<le> - max_loss s_open \<and>
      calculate_pnl s_open (tick_price tick105) \<ge> max_profit s_open"
    by (simp add: calculate_pnl_def s_open_fields tick105_def)
  have n: "\<not> calculate_pnl s_open (tick_price tick101) \<le> - max_loss s_open \<and>
      \<not> calculate_pnl s_open (tick_price tick101) \<ge> max_profit s_open"
    by (simp add: calculate_pnl_def s_open_fields tick101_def)
  have y: "evaluate eval_true t1 (exit_condition s_open) (tick_price tick101)"
    by (simp add: s_open_fields tick101_def) code_simp
  from o l x risk_checks_first [OF o, of tick95 eval_true t1]
  have 1: "exit_reason (evaluate_strategy eval_true t1 s_open tick95) = Some STOP_LOSS \<and>
      state (evaluate_strategy eval_true t1 s_open tick95) = CLOSED" by blast
  from g risk_checks_first [OF o, of tick105 eval_true t1]
  have 2: "exit_reason (evaluate_strategy eval_true t1 s_open tick105) = Some TARGET_HIT" by blast
  from n y risk_checks_first [OF o, of tick101 eval_true t1]
  have 3: "evaluate_strategy eval_true t1 s_open tick101 =
      exit_position s_open (tick_price tick101) EXIT_CONDITION t1" by simp
  from o l x g n 1 2 3 show ?thesis by blast
qed

section \<open>Force-close\<close>

lemma evaluate_strategy_terminal:
  "state s \<noteq> CREATED \<Longrightarrow> state s \<noteq> OPEN \<Longrightarrow> evaluate_strategy ev now s tick = s"
  by (simp add: evaluate_strategy_def)

lemma force_close_strategy_not_open:
  "state s \<noteq> OPEN \<Longrightarrow> force_close_strategy sim now s reason = s"
  by (simp add: force_close_strategy_def is_open_def)

lemma force_close_strategy_state:
  "state (force_close_strategy sim now s MARKET_CLOSE) \<noteq> OPEN"
  by (simp add: force_close_strategy_def is_open_def exit_position_eq exit_fields)

lemma force_close_step_other: "r \<noteq> a \<Longrightarrow> force_close_step sim now st a r = st r"
  by (simp add: force_close_step_def)

lemma force_close_step_not_open:
  "\<not> is_open (st r) \<Longrightarrow> force_close_step sim now st a r = st r"
  by (auto simp: force_close_step_def)

lemma force_close_fold_not_open:
  "\<not> is_open (st r) \<Longrightarrow> foldl (force_close_step sim now) st rs r = st r"
proof (induction rs arbitrary: st)
  case Nil
  show ?case by simp
next
  case (Cons a rs)
  from Cons.prems have "force_close_step sim now st a r = st r" by (rule force_close_step_not_open)
  with Cons show ?case by simp
qed

lemma force_close_fold_other:
  "r \<notin> set rs \<Longrightarrow> foldl (force_close_step sim now) st rs r = st r"
proof (induction rs arbitrary: st)
  case Nil
  show ?case by simp
next
  case (Cons a rs)
  then have "force_close_step sim now st a r = st r" by (simp add: force_close_step_other)
  with Cons show ?case by simp
qed

lemma force_close_step_self:
  "is_open (st r) \<Longrightarrow> force_close_step sim now st r r = exit_position (st r) (get_current_price sim (instrument (st r))) MARKET_CLOSE now"
  by (simp add: force_close_step_def force_close_strategy_def Let_def)

lemma force_close_fold_open:
  "r \<in> set rs \<Longrightarrow> is_open (st r) \<Longrightarrow>
   foldl (force_close_step sim now) st rs r =
     exit_position (st r) (get_current_price sim (instrument (st r))) MARKET_CLOSE now"
proof (induction rs arbitrary: st)
  case Nil
  then show ?case by simp
next
  case (Cons a rs)
  show ?case
  proof (cases "a = r")
    case True
    let ?st = "force_close_step sim now st r"
    have v: "?st r = exit_position (st r) (get_current_price sim (instrument (st r))) MARKET_CLOSE now"
      using Cons.prems(2) by (rule force_close_step_self)
    then have "\<not> is_open (?st r)" by (simp add: is_open_def exit_position_eq exit_fields)
    then have "foldl (force_close_step sim now) ?st rs r = ?st r" by (rule force_close_fold_not_open)
    with v True show ?thesis by simp
  next
    case False
    then have same: "force_close_step sim now st a r = st r" by (simp add: force_close_step_other)
    from False Cons.prems(1) have "r \<in> set rs" by simp
    moreover from same Cons.prems(2) have "is_open (force_close_step sim now st a r)" by simp
    ultimately have "foldl (force_close_step sim now) (force_close_step sim now st a) rs r =
      exit_position (force_close_step sim now st a r)
        (get_current_price sim (instrument (force_close_step sim now st a r))) MARKET_CLOSE now"
      by (rule Cons.IH)
    with same show ?thesis by simp
  qed
qed

lemma force_close_all_object:
  "objects (force_close_all now e) r =
     (if r \<in> set (active_strategies e)
      then force_close_strategy (market_simulator e) now (objects e r) MARKET_CLOSE
      else objects e r)"
proof (cases "r \<in> set (active_strategies e)")
  case False
  then show ?thesis by (simp add: force_close_all_def force_close_fold_other)
next
  case True
  show ?thesis
  proof (cases "is_open (objects e r)")
    case True
    with \<open>r \<in> set (active_strategies e)\<close> show ?thesis
      by (simp add: force_close_all_def force_close_fold_open force_close_strategy_def Let_def)
  next
    case False
    then show ?thesis
      by (simp add: force_close_all_def force_close_fold_not_open force_close_strategy_def)
  qed
qed

lemma force_close_all_fields:
  "strategies (force_close_all now e) = strategies e"
  "active_strategies (force_close_all now e) = active_strategies e"
  "market_simulator (force_close_all now e) = market_simulator e"
  by (simp_all add: force_close_all_def)

lemma open_are_active_step:
  assumes "open_are_active e" shows "open_are_active (engine_step e ev)"
proof (cases ev)
  case (TickFor r ev' now tick)
  with assms show ?thesis by (auto simp: open_are_active_def list_all_iff)
next
  case (TaskEnds r now)
  with assms show ?thesis
    by (auto simp: open_are_active_def list_all_iff force_close_strategy_state)
next
  case (TaskFails r)
  with assms show ?thesis
    by (auto simp: open_are_active_def list_all_iff mark_failed_def)
next
  case (ForceCloseAll now)
  have "state (objects (force_close_all now e) r) = OPEN \<longrightarrow> r \<in> set (active_strategies e)"
    if "r \<in> set (strategies e)" for r
  proof (cases "r \<in> set (active_strategies e)")
    case True then show ?thesis by simp
  next
    case False
    with assms that show ?thesis
      by (auto simp: force_close_all_object open_are_active_def list_all_iff)
  qed
  with ForceCloseAll show ?thesis
    by (simp add: open_are_active_def list_all_iff force_close_all_fields)
next
  case (Feed v rnd now)
  with assms show ?thesis by (simp add: open_are_active_def)
qed

lemma open_are_active_run: "open_are_active (foldl engine_step (run sim store refs) events)"
proof (induction events rule: rev_induct)
  case Nil
  show ?case by (simp add: run_def open_are_active_def list_all_iff)
next
  case (snoc ev events)
  then show ?case by (simp add: open_are_active_step)
qed

lemma strategies_step: "strategies (engine_step e ev) = strategies e"
  by (cases ev) (simp_all add: force_close_all_fields)

lemma strategies_run: "strategies (foldl engine_step e events) = strategies e"
  by (induction events rule: rev_induct) (simp_all add: strategies_step)

text \<open>
  C3. \<open>force_close_all\<close> takes every open strategy of the active roster to
  \<open>FORCE_CLOSED\<close> with exit reason \<open>MARKET_CLOSE\<close>, and its exit price is the current
  price of its instrument, the last price that the simulator recorded for it. In every
  state that the engine reaches after \<open>run\<close>, every open strategy of the roster is on
  the active roster, so this holds for every strategy that is open at shutdown.
\<close>

theorem force_close_all_open:
  "(r \<in> set (active_strategies e) \<and> state (objects e r) = OPEN \<longrightarrow>
      state (objects (force_close_all now e) r) = FORCE_CLOSED \<and>
      exit_reason (objects (force_close_all now e) r) = Some MARKET_CLOSE \<and>
      exit_price (objects (force_close_all now e) r) =
        Some (get_current_price (market_simulator e) (instrument (objects e r))) \<and>
      (current_prices (market_simulator e) (instrument (objects e r)) = Some p \<longrightarrow>
         exit_price (objects (force_close_all now e) r) = Some p)) \<and>
   (e = foldl engine_step (run sim store refs) events \<and> r \<in> set refs \<and>
    state (objects e r) = OPEN \<longrightarrow>
      r \<in> set (active_strategies e) \<and>
      state (objects (force_close_all now e) r) = FORCE_CLOSED \<and>
      exit_reason (objects (force_close_all now e) r) = Some MARKET_CLOSE \<and>
      exit_price (objects (force_close_all now e) r) =
        Some (get_current_price (market_simulator e) (instrument (objects e r))))"
proof -
  have closes: "state (objects (force_close_all now e) r) = FORCE_CLOSED \<and>
      exit_reason (objects (force_close_all now e) r) = Some MARKET_CLOSE \<and>
      exit_price (objects (force_close_all now e) r) =
        Some (get_current_price (market_simulator e) (instrument (objects e r)))"
    if a: "r \<in> set (active_strategies e)" and o: "state (objects e r) = OPEN"
  proof -
    from o have "is_open (objects e r)" by (simp add: is_open_def)
    with a have "objects (force_close_all now e) r =
       exit_position (objects e r)
         (get_current_price (market_simulator e) (instrument (objects e r))) MARKET_CLOSE now"
      by (simp add: force_close_all_def force_close_fold_open)
    then show ?thesis by (simp add: exit_position_eq exit_fields)
  qed
  have active: "r \<in> set (active_strategies e)"
    if e: "e = foldl engine_step (run sim store refs) events" and r: "r \<in> set refs"
      and o: "state (objects e r) = OPEN"
  proof -
    have "open_are_active e" unfolding e by (rule open_are_active_run)
    moreover have "strategies e = refs" unfolding e by (simp add: strategies_run run_def)
    ultimately show ?thesis using r o by (simp add: open_are_active_def list_all_iff)
  qed
  show ?thesis
  proof (intro conjI impI)
    assume h: "r \<in> set (active_strategies e) \<and> state (objects e r) = OPEN"
    with closes show "state (objects (force_close_all now e) r) = FORCE_CLOSED"
      "exit_reason (objects (force_close_all now e) r) = Some MARKET_CLOSE"
      "exit_price (objects (force_close_all now e) r) =
        Some (get_current_price (market_simulator e) (instrument (objects e r)))"
      by blast+
    assume "current_prices (market_simulator e) (instrument (objects e r)) = Some p"
    with closes h show "exit_price (objects (force_close_all now e) r) = Some p"
      by (simp add: get_current_price_def)
  next
    assume h: "e = foldl engine_step (run sim store refs) events \<and> r \<in> set refs \<and>
      state (objects e r) = OPEN"
    with active show a: "r \<in> set (active_strategies e)" by blast
    with closes h show "state (objects (force_close_all now e) r) = FORCE_CLOSED"
      "exit_reason (objects (force_close_all now e) r) = Some MARKET_CLOSE"
      "exit_price (objects (force_close_all now e) r) =
        Some (get_current_price (market_simulator e) (instrument (objects e r)))"
      by blast+
  qed
qed

theorem force_close_all_open_witness:
  "engine_open = foldl engine_step (run sim_nifty (\<lambda>_. s_new) [0])
     [TickFor 0 eval_true t0 \<lparr>tick_instrument = ''NIFTY'', tick_price = 100, tick_timestamp = t0\<rparr>] \<and>
   0 \<in> set (active_strategies engine_open) \<and> state (objects engine_open 0) = OPEN \<and>
   current_prices (market_simulator engine_open) (instrument (objects engine_open 0)) = Some 20100 \<and>
   state (objects (force_close_all t1 engine_open) 0) = FORCE_CLOSED \<and>
   exit_reason (objects (force_close_all t1 engine_open) 0) = Some MARKET_CLOSE \<and>
   exit_price (objects (force_close_all t1 engine_open) 0) = Some 20100"
proof -
  have e: "engine_open = foldl engine_step (run sim_nifty (\<lambda>_. s_new) [0])
     [TickFor 0 eval_true t0 \<lparr>tick_instrument = ''NIFTY'', tick_price = 100, tick_timestamp = t0\<rparr>]"
    by (simp add: engine_open_def run_def s_open_def)
  have a: "0 \<in> set (active_strategies engine_open)" by (simp add: engine_open_def)
  have o: "state (objects engine_open 0) = OPEN" by (simp add: engine_open_def s_open_fields)
  have p: "current_prices (market_simulator engine_open) (instrument (objects engine_open 0)) = Some 20100"
    by (simp add: engine_open_def s_open_fields sim_nifty_def)
  from e a o p force_close_all_open [of 0 engine_open t1 20100] show ?thesis by blast
qed

section \<open>Terminal states\<close>

lemma finished_step:
  assumes "state (objects e r) \<noteq> CREATED" and "state (objects e r) \<noteq> OPEN"
  shows "state (objects (engine_step e ev) r) \<noteq> CREATED \<and> state (objects (engine_step e ev) r) \<noteq> OPEN"
proof (cases ev)
  case (TickFor r' ev' now tick)
  with assms show ?thesis by (auto simp: evaluate_strategy_terminal)
next
  case (TaskEnds r' now)
  with assms show ?thesis by (auto simp: force_close_strategy_not_open)
next
  case (TaskFails r')
  with assms show ?thesis by (auto simp: mark_failed_def)
next
  case (ForceCloseAll now)
  with assms show ?thesis by (simp add: force_close_all_object force_close_strategy_not_open)
next
  case (Feed v rnd now)
  with assms show ?thesis by simp
qed

lemma finished_run:
  assumes "state (objects e r) \<noteq> CREATED" and "state (objects e r) \<noteq> OPEN"
  shows "state (objects (foldl engine_step e events) r) \<noteq> CREATED \<and>
         state (objects (foldl engine_step e events) r) \<noteq> OPEN"
proof (induction events rule: rev_induct)
  case Nil
  from assms show ?case by simp
next
  case (snoc ev events)
  then show ?case by (simp add: finished_step)
qed

text \<open>
  C9. A strategy that is \<open>CLOSED\<close> or \<open>FORCE_CLOSED\<close> is left as it is, in every
  field, by the evaluation of a tick and by the force-close, hence by any sequence of
  them; and \<open>force_close_all\<close> leaves every such strategy of the store as it is. After
  any steps of the engine it is not \<open>OPEN\<close> again.
\<close>

theorem terminal_states_stay:
  "(is_closed s \<longrightarrow>
      evaluate_strategy ev now s tick = s \<and>
      force_close_strategy sim now s reason = s \<and>
      foldl apply_event s events = s) \<and>
   (is_closed (objects e r) \<longrightarrow>
      objects (force_close_all now e) r = objects e r \<and>
      state (objects (foldl engine_step e engine_events) r) \<noteq> OPEN)"
proof (intro conjI impI)
  assume c: "is_closed s"
  then have ns: "state s \<noteq> CREATED" "state s \<noteq> OPEN" by (auto simp: is_closed_def)
  then show 1: "evaluate_strategy ev now s tick = s" by (rule evaluate_strategy_terminal)
  from ns(2) show 2: "force_close_strategy sim now s reason = s" by (rule force_close_strategy_not_open)
  show "foldl apply_event s events = s"
  proof (induction events)
    case Nil
    show ?case by simp
  next
    case (Cons a events)
    have "apply_event s a = s"
      by (cases a) (simp_all add: evaluate_strategy_terminal [OF ns] force_close_strategy_not_open [OF ns(2)])
    with Cons show ?case by simp
  qed
next
  assume c: "is_closed (objects e r)"
  then have ns: "state (objects e r) \<noteq> CREATED" "state (objects e r) \<noteq> OPEN"
    by (auto simp: is_closed_def)
  then have "\<not> is_open (objects e r)" by (simp add: is_open_def)
  then show "objects (force_close_all now e) r = objects e r"
    by (simp add: force_close_all_def force_close_fold_not_open)
  from ns show "state (objects (foldl engine_step e engine_events) r) \<noteq> OPEN"
    using finished_run by blast
qed

theorem terminal_states_stay_witness:
  "is_closed s_target \<and>
   evaluate_strategy eval_true t1 s_target tick95 = s_target \<and>
   force_close_strategy sim_nifty t1 s_target MARKET_CLOSE = s_target \<and>
   foldl apply_event s_target [Tick eval_true t1 tick95, ForceClose sim_nifty t1] = s_target \<and>
   is_closed (objects engine3 1) \<and>
   objects (force_close_all t1 engine3) 1 = objects engine3 1 \<and>
   state (objects (foldl engine_step engine3 [TickFor 1 eval_true t1 tick95, ForceCloseAll t1]) 1) \<noteq> OPEN"
proof -
  have c: "is_closed s_target" by (simp add: s_target_eq is_closed_def exit_fields)
  then have c': "is_closed (objects engine3 1)" by (simp add: engine3_def)
  from c c' terminal_states_stay [of s_target eval_true t1 tick95 sim_nifty MARKET_CLOSE
      "[Tick eval_true t1 tick95, ForceClose sim_nifty t1]" engine3 1
      "[TickFor 1 eval_true t1 tick95, ForceCloseAll t1]"]
  show ?thesis by blast
qed

section \<open>Force-close without a recorded price\<close>

text \<open>
  C10. \<open>get_current_price\<close> is 0 for an instrument that the price map does not have.
  Force-closing an open strategy on such an instrument sets its exit price to 0 and its
  profit to 0 minus the entry price, times the quantity.
\<close>

theorem force_close_without_price:
  "(current_prices sim ins = None \<longrightarrow> get_current_price sim ins = 0) \<and>
   (state s = OPEN \<and> entry_price s = Some e \<and> current_prices sim (instrument s) = None \<longrightarrow>
      exit_price (force_close_strategy sim now s MARKET_CLOSE) = Some 0 \<and>
      pnl (force_close_strategy sim now s MARKET_CLOSE) = (0 - e) * of_int (quantity s) \<and>
      state (force_close_strategy sim now s MARKET_CLOSE) = FORCE_CLOSED)"
  by (simp add: get_current_price_def force_close_strategy_def is_open_def Let_def
      exit_position_eq exit_fields calculate_pnl_def)

theorem force_close_without_price_witness:
  "current_prices sim_empty ''NIFTY'' = None \<and> get_current_price sim_empty ''NIFTY'' = 0 \<and>
   state s_open = OPEN \<and> entry_price s_open = Some 100 \<and>
   current_prices sim_empty (instrument s_open) = None \<and>
   exit_price (force_close_strategy sim_empty t1 s_open MARKET_CLOSE) = Some 0 \<and>
   pnl (force_close_strategy sim_empty t1 s_open MARKET_CLOSE) = - 1000"
proof -
  have n: "current_prices sim_empty ''NIFTY'' = None" by (simp add: sim_empty_def)
  have h: "state s_open = OPEN \<and> entry_price s_open = Some 100 \<and>
      current_prices sim_empty (instrument s_open) = None"
    by (simp add: s_open_fields sim_empty_def)
  from n h force_close_without_price [of sim_empty "''NIFTY''" s_open 100 t1]
  show ?thesis by (simp add: s_open_fields)
qed

section \<open>The invariant of the runtime fields\<close>

lemma field_invariant_new: "field_invariant (new_strategy a b c d q ml mp)"
  by (simp add: field_invariant_def new_strategy_def progressed_beyond_created_def is_closed_def)

lemma field_invariant_enter:
  "state s = CREATED \<Longrightarrow> field_invariant s \<Longrightarrow> field_invariant (enter s p t)"
  by (simp add: field_invariant_def enter_def progressed_beyond_created_def is_closed_def)

lemma field_invariant_exit:
  "state s = OPEN \<Longrightarrow> field_invariant s \<Longrightarrow> field_invariant (exit s p r t)"
  by (simp add: field_invariant_def exit_fields progressed_beyond_created_def is_closed_def)

lemma field_invariant_evaluate_strategy:
  assumes "field_invariant s" shows "field_invariant (evaluate_strategy ev now s tick)"
proof (cases "state s")
  case CREATED
  with assms show ?thesis
    by (simp add: evaluate_strategy_def enter_position_eq field_invariant_enter)
next
  case OPEN
  with assms show ?thesis
    by (simp add: evaluate_strategy_def exit_position_eq field_invariant_exit Let_def)
qed (use assms in \<open>simp_all add: evaluate_strategy_def\<close>)

lemma field_invariant_force_close_strategy:
  assumes "field_invariant s" shows "field_invariant (force_close_strategy sim now s reason)"
  using assms
  by (simp add: force_close_strategy_def is_open_def exit_position_eq field_invariant_exit Let_def)

lemma lifecycle_enter:
  "state s = CREATED \<Longrightarrow> lifecycle_invariant s \<Longrightarrow> lifecycle_invariant (enter s p t)"
  by (simp add: lifecycle_invariant_def field_invariant_enter)

lemma lifecycle_exit:
  "state s = OPEN \<Longrightarrow> lifecycle_invariant s \<Longrightarrow> lifecycle_invariant (exit s p r t)"
  by (simp add: lifecycle_invariant_def field_invariant_exit)

lemma lifecycle_evaluate_strategy:
  assumes "lifecycle_invariant s" shows "lifecycle_invariant (evaluate_strategy ev now s tick)"
proof (cases "state s")
  case CREATED
  with assms show ?thesis
    by (simp add: evaluate_strategy_def enter_position_eq lifecycle_enter)
next
  case OPEN
  with assms show ?thesis
    by (simp add: evaluate_strategy_def exit_position_eq lifecycle_exit Let_def)
qed (use assms in \<open>simp_all add: evaluate_strategy_def\<close>)

lemma lifecycle_force_close_strategy:
  assumes "lifecycle_invariant s" shows "lifecycle_invariant (force_close_strategy sim now s reason)"
  using assms
  by (simp add: force_close_strategy_def is_open_def exit_position_eq lifecycle_exit Let_def)

lemma lifecycle_step:
  assumes "\<forall>r. lifecycle_invariant (objects e r)"
  shows "\<forall>r. lifecycle_invariant (objects (engine_step e ev) r)"
proof (cases ev)
  case (TickFor r ev' now tick)
  with assms show ?thesis by (simp add: lifecycle_evaluate_strategy)
next
  case (TaskEnds r now)
  with assms show ?thesis by (simp add: lifecycle_force_close_strategy)
next
  case (TaskFails r)
  with assms show ?thesis by (simp add: lifecycle_invariant_def mark_failed_def)
next
  case (ForceCloseAll now)
  with assms show ?thesis by (simp add: force_close_all_object lifecycle_force_close_strategy)
next
  case (Feed v rnd now)
  with assms show ?thesis by simp
qed

lemma lifecycle_run:
  "\<forall>r. lifecycle_invariant (objects e r) \<Longrightarrow>
   \<forall>r. lifecycle_invariant (objects (foldl engine_step e events) r)"
proof (induction events rule: rev_induct)
  case Nil
  then show ?case by simp
next
  case (snoc ev events)
  then show ?case by (simp add: lifecycle_step)
qed

text \<open>
  \<open>mark_failed\<close> changes the state only. A closed strategy that fails keeps its exit
  price and is no longer closed; a new strategy that fails has left \<open>CREATED\<close> without
  an entry price, and an open one that fails keeps its entry price.
\<close>

theorem field_invariant_mark_failed_counterexample:
  "field_invariant s_target \<and> \<not> field_invariant (mark_failed s_target) \<and>
   exit_price (mark_failed s_target) = Some 105 \<and> \<not> is_closed (mark_failed s_target) \<and>
   field_invariant s_new \<and> \<not> field_invariant (mark_failed s_new) \<and>
   state (mark_failed s_new) = FAILED \<and> entry_price (mark_failed s_new) = None \<and>
   field_invariant s_open \<and>
   state (mark_failed s_open) = FAILED \<and> entry_price (mark_failed s_open) = Some 100"
  by (simp add: s_target_eq s_open_eq exit_fields s_new_def field_invariant_def new_strategy_def
      mark_failed_def enter_def progressed_beyond_created_def is_closed_def)

text \<open>
  C4, amended. A new strategy satisfies the invariant; the evaluation of a tick and the
  force-close preserve it, and so do \<open>enter\<close> on a strategy in \<open>CREATED\<close> and \<open>exit\<close> on
  an open one. With failed strategies exempted it is preserved by \<open>mark_failed\<close> as well,
  and by every step of the engine; an open strategy then has its entry price, and a closed
  one its exit price and exit reason.
\<close>

theorem lifecycle_invariant_preserved:
  "field_invariant (new_strategy sid ins entry_c exit_c qty ml mp) \<and>
   (field_invariant s \<longrightarrow>
      field_invariant (evaluate_strategy ev now s tick) \<and>
      field_invariant (force_close_strategy sim now s reason) \<and>
      (state s = CREATED \<longrightarrow> field_invariant (enter s p now)) \<and>
      (state s = OPEN \<longrightarrow> field_invariant (exit s p reason now))) \<and>
   (lifecycle_invariant s \<longrightarrow>
      lifecycle_invariant (evaluate_strategy ev now s tick) \<and>
      lifecycle_invariant (force_close_strategy sim now s reason) \<and>
      lifecycle_invariant (mark_failed s) \<and>
      (state s = CREATED \<longrightarrow> lifecycle_invariant (enter s p now)) \<and>
      (state s = OPEN \<longrightarrow> lifecycle_invariant (exit s p reason now)) \<and>
      (state s = OPEN \<longrightarrow> entry_price s \<noteq> None) \<and>
      (is_closed s \<longrightarrow> exit_price s \<noteq> None \<and> exit_reason s \<noteq> None)) \<and>
   ((\<forall>r. lifecycle_invariant (objects e r)) \<longrightarrow>
      (\<forall>r. lifecycle_invariant (objects (foldl engine_step e events) r)))"
proof (intro conjI impI)
  show "field_invariant (new_strategy sid ins entry_c exit_c qty ml mp)"
    by (rule field_invariant_new)
next
  assume f: "field_invariant s"
  then show "field_invariant (evaluate_strategy ev now s tick)"
    by (rule field_invariant_evaluate_strategy)
  from f show "field_invariant (force_close_strategy sim now s reason)"
    by (rule field_invariant_force_close_strategy)
  { assume "state s = CREATED" then show "field_invariant (enter s p now)"
      using f by (rule field_invariant_enter) }
  { assume "state s = OPEN" then show "field_invariant (exit s p reason now)"
      using f by (rule field_invariant_exit) }
next
  assume i: "lifecycle_invariant s"
  then show "lifecycle_invariant (evaluate_strategy ev now s tick)"
    by (rule lifecycle_evaluate_strategy)
  from i show "lifecycle_invariant (force_close_strategy sim now s reason)"
    by (rule lifecycle_force_close_strategy)
  show "lifecycle_invariant (mark_failed s)"
    by (simp add: lifecycle_invariant_def mark_failed_def)
  { assume "state s = CREATED" then show "lifecycle_invariant (enter s p now)"
      using i by (rule lifecycle_enter) }
  { assume "state s = OPEN" then show "lifecycle_invariant (exit s p reason now)"
      using i by (rule lifecycle_exit) }
  { assume "state s = OPEN" with i show "entry_price s \<noteq> None"
      by (simp add: lifecycle_invariant_def field_invariant_def progressed_beyond_created_def) }
  { assume c: "is_closed s"
    then have "state s \<noteq> FAILED" by (auto simp: is_closed_def)
    with i c show "exit_price s \<noteq> None" "exit_reason s \<noteq> None"
      by (simp_all add: lifecycle_invariant_def field_invariant_def) }
next
  assume "\<forall>r. lifecycle_invariant (objects e r)"
  then show "\<forall>r. lifecycle_invariant (objects (foldl engine_step e events) r)"
    by (rule lifecycle_run)
qed

theorem lifecycle_invariant_preserved_witness:
  "field_invariant s_new \<and> state s_new = CREATED \<and>
   field_invariant (enter s_new 100 t0) \<and>
   field_invariant s_open \<and> lifecycle_invariant s_open \<and>
   state s_open = OPEN \<and> entry_price s_open \<noteq> None \<and>
   field_invariant (exit s_open 105 TARGET_HIT t1) \<and>
   field_invariant (evaluate_strategy eval_true t1 s_open tick95) \<and>
   lifecycle_invariant (mark_failed s_open) \<and>
   (\<forall>r. lifecycle_invariant (objects engine_open r)) \<and>
   (\<forall>r. lifecycle_invariant (objects (foldl engine_step engine_open [TaskFails 0, ForceCloseAll t1]) r))"
proof -
  have n: "field_invariant s_new"
    using lifecycle_invariant_preserved [of "''S1''" "''NIFTY''" "''price > 99''" "''price < 96''" 10 50 40]
    by (simp add: s_new_def)
  have c: "state s_new = CREATED" by (simp add: s_new_def new_strategy_def)
  from n c lifecycle_invariant_preserved [of _ _ _ _ _ _ _ s_new _ t0 _ _ _ 100]
  have e: "field_invariant (enter s_new 100 t0)" by blast
  then have f: "field_invariant s_open" by (simp add: s_open_eq)
  then have i: "lifecycle_invariant s_open" by (simp add: lifecycle_invariant_def)
  have o: "state s_open = OPEN" by (simp add: s_open_fields)
  have io: "\<forall>r. lifecycle_invariant (objects engine_open r)"
    using i n by (simp add: engine_open_def lifecycle_invariant_def)
  from f i o io lifecycle_invariant_preserved [of _ _ _ _ _ _ _ s_open eval_true t1 tick95 _ TARGET_HIT 105
      engine_open "[TaskFails 0, ForceCloseAll t1]"]
  have "entry_price s_open \<noteq> None \<and>
   field_invariant (exit s_open 105 TARGET_HIT t1) \<and>
   field_invariant (evaluate_strategy eval_true t1 s_open tick95) \<and>
   lifecycle_invariant (mark_failed s_open) \<and>
   (\<forall>r. lifecycle_invariant (objects (foldl engine_step engine_open [TaskFails 0, ForceCloseAll t1]) r))"
    by blast
  with n c e f i o io show ?thesis by blast
qed

section \<open>A round of the simulator\<close>



lemma broadcast_tick_fields:
  "subscribers (broadcast_tick sim ins tick) = subscribers sim"
  "current_prices (broadcast_tick sim ins tick) = current_prices sim"
  by (simp_all add: broadcast_tick_def)


lemma subscribers_of_upd [simp]:
  "subscribers_of (sim\<lparr>current_prices := pr\<rparr>) ins = subscribers_of sim ins"
  by (simp add: subscribers_of_def)


lemma step_sim_fields:
  "subscribers (step_sim v rnd now k ins old sim) = subscribers sim"
  "current_prices (step_sim v rnd now k ins old sim) = (current_prices sim)(ins \<mapsto> next_price v rnd k old)"
  by (simp_all add: step_sim_def broadcast_tick_fields)

lemma subscribers_of_step [simp]:
  "subscribers_of (step_sim v rnd now k ins old sim) i = subscribers_of sim i"
  by (simp add: subscribers_of_def step_sim_fields)











text \<open>A queue that is full when the tick is put, and stays full for the wait, does not
  get the tick.\<close>

lemma full_queue_drops_tick: "length q = maxsize \<Longrightarrow> put_with_timeout item q = q"
  by (simp add: put_with_timeout_def)



section \<open>Statistics\<close>

lemma count_filter: "sum_list [1. s \<leftarrow> ss, P s] = length (filter P ss)"
  by (induction ss) auto

lemma pnl_sum_closed:
  "\<forall>s \<in> set ss. \<not> is_closed s \<longrightarrow> pnl s = 0 \<Longrightarrow>
   sum_list (map pnl ss) = sum_list (map pnl (filter is_closed ss))"
  by (induction ss) auto

text \<open>
  A strategy stopped out by the stop-loss is \<open>CLOSED\<close>, as is one closed on its target:
  with one strategy that never entered, one closed with a profit of 50 on its target and
  one stopped out with a loss of 50, \<open>completed\<close> is 2.
\<close>

theorem get_statistics_scenario_counterexample:
  "state (objects engine3 0) = CREATED \<and>
   state (objects engine3 1) = CLOSED \<and> exit_reason (objects engine3 1) = Some TARGET_HIT \<and>
   pnl (objects engine3 1) = 50 \<and>
   state (objects engine3 2) = CLOSED \<and> exit_reason (objects engine3 2) = Some STOP_LOSS \<and>
   pnl (objects engine3 2) = - 50 \<and>
   never_entered (get_statistics engine3) = 1 \<and> failed (get_statistics engine3) = 0 \<and>
   completed (get_statistics engine3) = 2 \<and> completed (get_statistics engine3) \<noteq> 1"
  by (simp add: engine3_def get_statistics_def Let_def s_target_eq s_stopped_eq exit_fields
      calculate_pnl_def s_open_fields s_new_def new_strategy_def)

text \<open>
  C7, amended. \<open>get_statistics\<close> counts the strategies of the roster, and among them
  those that are \<open>CLOSED\<close>, \<open>FORCE_CLOSED\<close>, \<open>FAILED\<close> and \<open>CREATED\<close>; \<open>total_pnl\<close> is
  the sum of the \<open>pnl\<close> fields, which is the sum over the closed strategies when no other
  strategy has a profit recorded. With one strategy that never entered, one that exited
  for some reason and one that was stopped out, \<open>never_entered\<close> is 1, \<open>failed\<close> is 0
  and \<open>total_pnl\<close> is the sum of the two realised profits; \<open>completed\<close> is 2, unless the
  first exit was the one at market close: then \<open>completed\<close> is 1 and \<open>force_closed\<close> is 1.
\<close>

theorem get_statistics_counts:
  "(let ss = map (objects e) (strategies e); st = get_statistics e in
      total st = length (strategies e) \<and>
      completed st = length (filter (\<lambda>s. state s = CLOSED) ss) \<and>
      force_closed st = length (filter (\<lambda>s. state s = FORCE_CLOSED) ss) \<and>
      failed st = length (filter (\<lambda>s. state s = FAILED) ss) \<and>
      never_entered st = length (filter (\<lambda>s. state s = CREATED) ss) \<and>
      total_pnl st = sum_list (map pnl ss) \<and>
      ((\<forall>s \<in> set ss. \<not> is_closed s \<longrightarrow> pnl s = 0) \<longrightarrow>
         total_pnl st = sum_list (map pnl (filter is_closed ss)))) \<and>
   (strategies e = [ra, rb, rc] \<and>
    state (objects e ra) = CREATED \<and> pnl (objects e ra) = 0 \<and>
    objects e rb = exit b pb reason tb \<and> objects e rc = exit c pc STOP_LOSS tc \<longrightarrow>
      never_entered (get_statistics e) = 1 \<and> failed (get_statistics e) = 0 \<and>
      completed (get_statistics e) = (if reason = MARKET_CLOSE then 1 else 2) \<and>
      force_closed (get_statistics e) = (if reason = MARKET_CLOSE then 1 else 0) \<and>
      total_pnl (get_statistics e) = calculate_pnl b pb + calculate_pnl c pc)"
proof (intro conjI impI)
  show "let ss = map (objects e) (strategies e); st = get_statistics e in
      total st = length (strategies e) \<and>
      completed st = length (filter (\<lambda>s. state s = CLOSED) ss) \<and>
      force_closed st = length (filter (\<lambda>s. state s = FORCE_CLOSED) ss) \<and>
      failed st = length (filter (\<lambda>s. state s = FAILED) ss) \<and>
      never_entered st = length (filter (\<lambda>s. state s = CREATED) ss) \<and>
      total_pnl st = sum_list (map pnl ss) \<and>
      ((\<forall>s \<in> set ss. \<not> is_closed s \<longrightarrow> pnl s = 0) \<longrightarrow>
         total_pnl st = sum_list (map pnl (filter is_closed ss)))"
  proof -
    define ss where "ss = map (objects e) (strategies e)"
    have st: "get_statistics e =
      \<lparr>total = length ss,
       completed = sum_list [1. s \<leftarrow> ss, state s = CLOSED],
       force_closed = sum_list [1. s \<leftarrow> ss, state s = FORCE_CLOSED],
       failed = sum_list [1. s \<leftarrow> ss, state s = FAILED],
       never_entered = sum_list [1. s \<leftarrow> ss, state s = CREATED],
       total_pnl = sum_list [pnl s. s \<leftarrow> ss],
       winners = sum_list [1. s \<leftarrow> ss, pnl s \<noteq> 0 \<and> pnl s > 0],
       losers = sum_list [1. s \<leftarrow> ss, pnl s \<noteq> 0 \<and> pnl s < 0]\<rparr>"
      by (simp only: get_statistics_def Let_def ss_def)
    have len: "length ss = length (strategies e)" by (simp add: ss_def)
    have 1: "total (get_statistics e) = length (strategies e)"
      by (simp only: st Statistics.select_convs len)
    have 2: "completed (get_statistics e) = length (filter (\<lambda>s. state s = CLOSED) ss)"
      by (simp only: st Statistics.select_convs count_filter)
    have 3: "force_closed (get_statistics e) = length (filter (\<lambda>s. state s = FORCE_CLOSED) ss)"
      by (simp only: st Statistics.select_convs count_filter)
    have 4: "failed (get_statistics e) = length (filter (\<lambda>s. state s = FAILED) ss)"
      by (simp only: st Statistics.select_convs count_filter)
    have 5: "never_entered (get_statistics e) = length (filter (\<lambda>s. state s = CREATED) ss)"
      by (simp only: st Statistics.select_convs count_filter)
    have 6: "total_pnl (get_statistics e) = sum_list (map pnl ss)"
      by (simp only: st Statistics.select_convs)
    have 7: "(\<forall>s \<in> set ss. \<not> is_closed s \<longrightarrow> pnl s = 0) \<longrightarrow>
         total_pnl (get_statistics e) = sum_list (map pnl (filter is_closed ss))"
      unfolding 6 using pnl_sum_closed [of ss] by blast
    from 1 2 3 4 5 6 7 show ?thesis unfolding Let_def ss_def [symmetric] by blast
  qed
next
  assume h: "strategies e = [ra, rb, rc] \<and>
    state (objects e ra) = CREATED \<and> pnl (objects e ra) = 0 \<and>
    objects e rb = exit b pb reason tb \<and> objects e rc = exit c pc STOP_LOSS tc"
  then show "never_entered (get_statistics e) = 1" "failed (get_statistics e) = 0"
    "completed (get_statistics e) = (if reason = MARKET_CLOSE then 1 else 2)"
    "force_closed (get_statistics e) = (if reason = MARKET_CLOSE then 1 else 0)"
    "total_pnl (get_statistics e) = calculate_pnl b pb + calculate_pnl c pc"
    by (simp_all add: get_statistics_def Let_def exit_fields)
qed

theorem get_statistics_counts_witness:
  "strategies engine3 = [0, 1, 2] \<and>
   state (objects engine3 0) = CREATED \<and> pnl (objects engine3 0) = 0 \<and>
   objects engine3 1 = exit s_open 105 TARGET_HIT t1 \<and>
   objects engine3 2 = exit s_open 95 STOP_LOSS t1 \<and>
   is_closed (objects engine3 1) \<and> is_closed (objects engine3 2) \<and>
   total (get_statistics engine3) = 3 \<and>
   never_entered (get_statistics engine3) = 1 \<and> failed (get_statistics engine3) = 0 \<and>
   completed (get_statistics engine3) = 2 \<and> force_closed (get_statistics engine3) = 0 \<and>
   total_pnl (get_statistics engine3) = 0"
proof -
  have h: "strategies engine3 = [0, 1, 2] \<and>
   state (objects engine3 0) = CREATED \<and> pnl (objects engine3 0) = 0 \<and>
   objects engine3 1 = exit s_open 105 TARGET_HIT t1 \<and>
   objects engine3 2 = exit s_open 95 STOP_LOSS t1"
    by (simp add: engine3_def s_target_eq s_stopped_eq s_new_def new_strategy_def)
  have z: "\<forall>s \<in> set (map (objects engine3) (strategies engine3)). \<not> is_closed s \<longrightarrow> pnl s = 0"
    by (simp add: engine3_def s_new_def new_strategy_def s_target_eq s_stopped_eq is_closed_def exit_fields)
  have p: "calculate_pnl s_open 105 + calculate_pnl s_open 95 = 0"
    by (simp add: calculate_pnl_def s_open_fields)
  note T = get_statistics_counts [of engine3 0 1 2 s_open 105 TARGET_HIT t1 s_open 95 t1]
  from T h have sc: "never_entered (get_statistics engine3) = 1 \<and> failed (get_statistics engine3) = 0 \<and>
      completed (get_statistics engine3) = (if TARGET_HIT = MARKET_CLOSE then 1 else 2) \<and>
      force_closed (get_statistics engine3) = (if TARGET_HIT = MARKET_CLOSE then 1 else 0) \<and>
      total_pnl (get_statistics engine3) = calculate_pnl s_open 105 + calculate_pnl s_open 95"
    by blast
  from T have "total (get_statistics engine3) = length (strategies engine3)"
    unfolding Let_def by blast
  with h have tot: "total (get_statistics engine3) = 3" by simp
  have c: "is_closed (objects engine3 1) \<and> is_closed (objects engine3 2)"
    by (simp add: engine3_def s_target_eq s_stopped_eq is_closed_def exit_fields)
  from T z have "total_pnl (get_statistics engine3) =
      sum_list (map pnl (filter is_closed (map (objects engine3) (strategies engine3))))"
    unfolding Let_def by blast
  from sc p tot h c show ?thesis by simp
qed

end
